theory Spec2Isabelle
  imports Main "HOL-Library.Sublist"
begin

section \<open>Python strings\<close>

text \<open>
  A Python \<open>str\<close> is a sequence of Unicode code points, and \<open>len\<close> counts code points.
  A code point is a natural number here; \<open>u\<close> reads an ASCII literal. The tests
  \<open>in\<close>, \<open>startswith\<close> and \<open>endswith\<close> on strings are \<^const>\<open>sublist\<close>,
  \<^const>\<open>prefix\<close> and \<^const>\<open>suffix\<close>.
\<close>

type_synonym uchar = nat
type_synonym ustring = "uchar list"

definition u :: "string \<Rightarrow> ustring" where
  "u s = map of_char s"

definition backslash :: uchar where
  "backslash = 92"

definition newline :: uchar where
  "newline = 10"

text \<open>
  The characters that \<open>str.strip()\<close> removes and that \<open>\s\<close> matches in a \<open>str\<close>
  pattern: U+0009..U+000D, U+001C..U+0020, U+0085, U+00A0, U+1680, U+2000..U+200A,
  U+2028, U+2029, U+202F, U+205F, U+3000.
\<close>

definition isspace :: "uchar \<Rightarrow> bool" where
  "isspace c = ((9 \<le> c \<and> c \<le> 13) \<or> (28 \<le> c \<and> c \<le> 32) \<or> c = 133 \<or> c = 160 \<or> c = 5760
     \<or> (8192 \<le> c \<and> c \<le> 8202) \<or> c = 8232 \<or> c = 8233 \<or> c = 8239 \<or> c = 8287 \<or> c = 12288)"

definition str_strip :: "ustring \<Rightarrow> ustring" where
  "str_strip s = rev (dropWhile isspace (rev (dropWhile isspace s)))"

text \<open>
  \<open>text.split(sep)\<close> for a separator of one character. The result is never empty
  (\<open>''.split('\n') == ['']\<close>), so the branch for \<open>[]\<close> below is never taken.
\<close>

fun str_split :: "uchar \<Rightarrow> ustring \<Rightarrow> ustring list" where
  "str_split sep [] = [[]]"
| "str_split sep (c # cs) =
     (if c = sep then [] # str_split sep cs
      else (case str_split sep cs of [] \<Rightarrow> [[c]] | l # ls \<Rightarrow> (c # l) # ls))"

text \<open>\<open>sep.join(xs)\<close>.\<close>

fun str_join :: "ustring \<Rightarrow> ustring list \<Rightarrow> ustring" where
  "str_join sep [] = []"
| "str_join sep [x] = x"
| "str_join sep (x # y # ys) = x @ sep @ str_join sep (y # ys)"

text \<open>\<open>text.replace(old, new)\<close> for \<open>old\<close> of one character: every occurrence is replaced.\<close>

definition str_replace :: "uchar \<Rightarrow> ustring \<Rightarrow> ustring \<Rightarrow> ustring" where
  "str_replace old new text = concat (map (\<lambda>c. if c = old then new else [c]) text)"

text \<open>
  \<open>str.isupper()\<close> and \<open>str.lower()\<close> read the case tables of the interpreter's Unicode
  database, which is no part of the repository. On ASCII they are written out; for the
  other code points the tables are a parameter: which characters are uppercase, which
  are lowercase or titlecase, and the lowering of the character at an index of a string
  (the lowering of capital sigma depends on its neighbours).
\<close>

record ucd =
  ucd_isupper :: "uchar \<Rightarrow> bool"
  ucd_islower :: "uchar \<Rightarrow> bool"
  ucd_lower :: "ustring \<Rightarrow> nat \<Rightarrow> ustring"

definition char_isupper :: "ucd \<Rightarrow> uchar \<Rightarrow> bool" where
  "char_isupper U c = (if c < 128 then 65 \<le> c \<and> c \<le> 90 else ucd_isupper U c)"

definition char_islower :: "ucd \<Rightarrow> uchar \<Rightarrow> bool" where
  "char_islower U c = (if c < 128 then 97 \<le> c \<and> c \<le> 122 else ucd_islower U c)"

text \<open>
  \<open>s.isupper()\<close>: no character is lowercase or titlecase, and at least one is uppercase.
\<close>

definition str_isupper :: "ucd \<Rightarrow> ustring \<Rightarrow> bool" where
  "str_isupper U s = (\<not> list_ex (char_islower U) s \<and> list_ex (char_isupper U) s)"

definition str_lower :: "ucd \<Rightarrow> ustring \<Rightarrow> ustring" where
  "str_lower U s = concat (map (\<lambda>i. let c = s ! i in
       if c < 128 then [if 65 \<le> c \<and> c \<le> 90 then c + 32 else c] else ucd_lower U s i)
     [0..<length s])"

text \<open>A database in which no code point beyond ASCII is cased: enough for ASCII inputs.\<close>

definition ascii_ucd :: ucd where
  "ascii_ucd = \<lparr>ucd_isupper = (\<lambda>c. False), ucd_islower = (\<lambda>c. False),
     ucd_lower = (\<lambda>s i. [s ! i])\<rparr>"

section \<open>pdf_to_latex.py: class PDFToLaTeXConverter\<close>

subsection \<open>Escaping\<close>

text \<open>
  \<open>latex_special_chars\<close> is a dict literal; iterating \<open>.items()\<close> follows the order of
  insertion, so the table is an association list in the order of the source, the
  backslash last.
\<close>

definition latex_special_chars :: "(uchar \<times> ustring) list" where
  "latex_special_chars =
    [(38, backslash # u ''&''),
     (37, backslash # u ''%''),
     (36, backslash # u ''$''),
     (35, backslash # u ''#''),
     (94, backslash # u ''textasciicircum{}''),
     (95, backslash # u ''_''),
     (123, backslash # u ''{''),
     (125, backslash # u ''}''),
     (126, backslash # u ''textasciitilde{}''),
     (backslash, backslash # u ''textbackslash{}'')]"

definition escape_latex :: "ustring \<Rightarrow> ustring" where
  "escape_latex text =
     foldl (\<lambda>text (char, replacement). str_replace char replacement text) text latex_special_chars"

subsection \<open>Classifying lines\<close>

text \<open>
  The line predicates. \<open>is_title\<close> takes the list of all lines as the source does.
\<close>

definition is_title :: "ucd \<Rightarrow> ustring \<Rightarrow> ustring list \<Rightarrow> bool" where
  "is_title U line all_lines =
     (if length line < 50 \<and> str_isupper U line then True
      else if sublist (u ''App'') line \<or> sublist (u ''System'') line \<or> sublist (u ''Project'') line
        then True
      else False)"

definition section_keywords :: "ustring list" where
  "section_keywords = [u ''Summary'', u ''Features'', u ''Introduction'', u ''Overview'',
     u ''Requirements'', u ''Implementation'', u ''Conclusion'']"

definition is_section_heading :: "ucd \<Rightarrow> ustring \<Rightarrow> bool" where
  "is_section_heading U line =
     (list_ex (\<lambda>keyword. sublist (str_lower U keyword) (str_lower U line)) section_keywords
      \<and> length line < 50)"

definition is_subsection_heading :: "ustring \<Rightarrow> bool" where
  "is_subsection_heading line =
     (if suffix (u '':'') line \<and> length line < 80 then True else False)"

text \<open>The bullet glyphs: U+25CF black circle, U+2022 bullet, U+25CB white circle.\<close>

definition black_circle :: uchar where
  "black_circle = 9679"

definition bullet :: uchar where
  "bullet = 8226"

definition white_circle :: uchar where
  "white_circle = 9675"

definition is_primary_bullet :: "ustring \<Rightarrow> bool" where
  "is_primary_bullet line =
     (prefix [black_circle] line \<or> prefix [bullet] line \<or> prefix (u ''- '') line)"

definition is_secondary_bullet :: "ustring \<Rightarrow> bool" where
  "is_secondary_bullet line =
     (prefix [white_circle] line \<or> prefix (u ''  '' @ [white_circle]) line
      \<or> prefix (u ''    '' @ [white_circle]) line)"

text \<open>
  \<open>re.sub(r'^[\s]*[...]\s*', '', line).strip()\<close> with the three glyphs and the hyphen in
  the class: the pattern is anchored at the start, so it matches at most once. It
  matches when the first character after the leading whitespace is in the class, and
  then takes the whitespace that follows too; without a match the line is unchanged.
\<close>

definition clean_bullet_text :: "ustring \<Rightarrow> ustring" where
  "clean_bullet_text line =
     (let cleaned =
        (case dropWhile isspace line of
           [] \<Rightarrow> line
         | c # rest \<Rightarrow>
             if c = black_circle \<or> c = bullet \<or> c = white_circle \<or> c = 45
             then dropWhile isspace rest else line)
      in str_strip cleaned)"

text \<open>
  A block of the structured content is the pair of its type (a string) and its text.
  The loop of \<open>identify_structure\<close> over the lines, with \<open>lines\<close> the list of all of
  them, handed to \<open>is_title\<close>.
\<close>

type_synonym block = "ustring \<times> ustring"

fun identify_loop :: "ucd \<Rightarrow> ustring list \<Rightarrow> ustring list \<Rightarrow> block list \<Rightarrow> block list" where
  "identify_loop U lines [] structured_content = structured_content"
| "identify_loop U lines (l # rest) structured_content =
     (let line = str_strip l in
      if line = [] then identify_loop U lines rest structured_content
      else if is_title U line lines
        then identify_loop U lines rest (structured_content @ [(u ''title'', line)])
      else if is_section_heading U line
        then identify_loop U lines rest (structured_content @ [(u ''section'', line)])
      else if is_subsection_heading line
        then identify_loop U lines rest (structured_content @ [(u ''subsection'', line)])
      else if is_primary_bullet line
        then identify_loop U lines rest (structured_content @ [(u ''bullet1'', clean_bullet_text line)])
      else if is_secondary_bullet line
        then identify_loop U lines rest (structured_content @ [(u ''bullet2'', clean_bullet_text line)])
      else identify_loop U lines rest (structured_content @ [(u ''paragraph'', line)]))"

definition identify_structure :: "ucd \<Rightarrow> ustring \<Rightarrow> block list" where
  "identify_structure U text = (let lines = str_split newline text in identify_loop U lines lines [])"

subsection \<open>Emitting the document\<close>

text \<open>
  The state of \<open>convert_to_latex\<close>: the lines emitted so far and the two flags.
\<close>

record emitter =
  latex_content :: "ustring list"
  in_itemize :: bool
  in_subitemize :: bool

definition begin_itemize :: ustring where
  "begin_itemize = backslash # u ''begin{itemize}''"

definition end_itemize :: ustring where
  "end_itemize = backslash # u ''end{itemize}''"

definition append_line :: "ustring \<Rightarrow> emitter \<Rightarrow> emitter" where
  "append_line line e = e\<lparr>latex_content := latex_content e @ [line]\<rparr>"

text \<open>The two steps that close the lists, secondary first, as each branch writes them.\<close>

definition close_subitemize :: "emitter \<Rightarrow> emitter" where
  "close_subitemize e =
     (if in_subitemize e then (append_line end_itemize e)\<lparr>in_subitemize := False\<rparr> else e)"

definition close_itemize :: "emitter \<Rightarrow> emitter" where
  "close_itemize e =
     (if in_itemize e then (append_line end_itemize e)\<lparr>in_itemize := False\<rparr> else e)"

definition header :: "ustring list" where
  "header =
    [backslash # u ''documentclass[11pt,a4paper]{article}'',
     backslash # u ''usepackage[utf8]{inputenc}'',
     backslash # u ''usepackage[T1]{fontenc}'',
     backslash # u ''usepackage{geometry}'',
     backslash # u ''usepackage{enumitem}'',
     backslash # u ''usepackage{parskip}'',
     backslash # u ''geometry{margin=1in}'',
     [],
     backslash # u ''begin{document}'',
     []]"

text \<open>
  One iteration of the loop over the blocks. A type that is none of the six falls
  through every branch and emits nothing.
\<close>

definition emit_block :: "emitter \<Rightarrow> block \<Rightarrow> emitter" where
  "emit_block e b =
     (case b of (content_type, content) \<Rightarrow>
      let escaped_content = escape_latex content in
      if content_type = u ''title'' then
        append_line [] (append_line (backslash # u ''maketitle'')
          (append_line (backslash # u ''title{'' @ escaped_content @ u ''}'') e))
      else if content_type = u ''section'' then
        append_line [] (append_line (backslash # u ''section{'' @ escaped_content @ u ''}'')
          (close_itemize (close_subitemize e)))
      else if content_type = u ''subsection'' then
        append_line [] (append_line (backslash # u ''subsection{'' @ escaped_content @ u ''}'')
          (close_itemize (close_subitemize e)))
      else if content_type = u ''bullet1'' then
        (let e1 = close_subitemize e;
             e2 = (if \<not> in_itemize e1 then (append_line begin_itemize e1)\<lparr>in_itemize := True\<rparr> else e1)
         in append_line (backslash # u ''item '' @ escaped_content) e2)
      else if content_type = u ''bullet2'' then
        (let e1 = (if \<not> in_subitemize e then (append_line begin_itemize e)\<lparr>in_subitemize := True\<rparr> else e)
         in append_line (backslash # u ''item '' @ escaped_content) e1)
      else if content_type = u ''paragraph'' then
        append_line [] (append_line escaped_content (close_itemize (close_subitemize e)))
      else e)"

text \<open>
  The list \<open>latex_content\<close> as it stands at the \<open>return\<close>, and the string returned.
  After the loop the two closing steps do not reset the flags; nothing reads them again.
\<close>

definition convert_to_latex_lines :: "block list \<Rightarrow> ustring list" where
  "convert_to_latex_lines structured_content =
     (let e0 = \<lparr>latex_content = header, in_itemize = False, in_subitemize = False\<rparr>;
          e1 = foldl emit_block e0 structured_content;
          e2 = (if in_subitemize e1 then append_line end_itemize e1 else e1);
          e3 = (if in_itemize e2 then append_line end_itemize e2 else e2)
      in latex_content (append_line (backslash # u ''end{document}'') (append_line [] e3)))"

definition convert_to_latex :: "block list \<Rightarrow> ustring" where
  "convert_to_latex structured_content = str_join [newline] (convert_to_latex_lines structured_content)"

text \<open>
  The open list environments along a list of emitted lines: a line \<open>\begin{itemize}\<close>
  opens one, a line \<open>\end{itemize}\<close> closes the innermost and must find one open;
  \<open>balanced n ls\<close> says that \<open>ls\<close>, read with \<open>n\<close> environments open, ends with none.
\<close>

fun balanced :: "nat \<Rightarrow> ustring list \<Rightarrow> bool" where
  "balanced n [] = (n = 0)"
| "balanced n (l # ls) =
     (if l = begin_itemize then balanced (Suc n) ls
      else if l = end_itemize then (0 < n \<and> balanced (n - 1) ls)
      else balanced n ls)"

section \<open>tex_to_pdf.py: class LaTeXToPDFConverter\<close>

text \<open>
  The methods keep their names without the leading underscore. What they print is left
  out.
\<close>

subsection \<open>Parsing the log\<close>

text \<open>
  One iteration of the loop of \<open>_parse_latex_errors\<close> over \<open>enumerate(lines)\<close>; the
  accumulator is the pair of the lists \<open>errors\<close> and \<open>warnings\<close>.
\<close>

definition parse_step ::
  "ustring list \<Rightarrow> ustring list \<times> ustring list \<Rightarrow> nat \<times> ustring \<Rightarrow> ustring list \<times> ustring list" where
  "parse_step lines acc il =
     (case acc of (errors, warnings) \<Rightarrow>
      case il of (i, line) \<Rightarrow>
        if prefix (u ''!'') line \<or> sublist (u ''Error:'') line then
          (let start = nat (max 0 (int i - 2));
               stop = min (length lines) (i + 3);
               error_context = map (\<lambda>j. lines ! j) [start..<stop]
           in (errors @ [str_join [newline] error_context], warnings))
        else if sublist (u ''Warning:'') line \<or> prefix (u ''LaTeX Warning:'') line then
          (errors, warnings @ [str_strip line])
        else (errors, warnings))"

definition parse_latex_errors :: "ustring \<Rightarrow> ustring list \<times> ustring list" where
  "parse_latex_errors log_content =
     (let lines = str_split newline log_content
      in foldl (parse_step lines) ([], []) (enumerate 0 lines))"

definition indicators :: "ustring list" where
  "indicators = [u ''Rerun to get cross-references right'', u ''Label(s) may have changed'',
     u ''Rerun LaTeX'', u ''Table widths have changed'']"

definition needs_multiple_passes :: "ustring \<Rightarrow> bool" where
  "needs_multiple_passes log_content = list_ex (\<lambda>indicator. sublist indicator log_content) indicators"

subsection \<open>Paths and the file system\<close>

text \<open>
  A \<open>pathlib\<close> path: its anchor (empty for a relative path) and its components.
  The suffix is the part of the name from its last dot, when that dot is neither the
  first nor the last character of the name. \<open>with_suffix\<close> raises on an empty name;
  \<open>convert_to_pdf\<close> calls it only on a path that has passed the test of the suffix,
  which an empty name fails.
\<close>

record path =
  anchor :: ustring
  parts :: "ustring list"

definition path_name :: "path \<Rightarrow> ustring" where
  "path_name p = (if parts p = [] then [] else last (parts p))"

definition path_suffix :: "path \<Rightarrow> ustring" where
  "path_suffix p =
     (let name = path_name p;
          ext = rev (takeWhile (\<lambda>c. c \<noteq> 46) (rev name))
      in if 46 \<in> set name \<and> ext \<noteq> [] \<and> length ext + 1 < length name then 46 # ext else [])"

definition with_suffix :: "path \<Rightarrow> ustring \<Rightarrow> path" where
  "with_suffix p suffix' =
     (let name = path_name p;
          stem = take (length name - length (path_suffix p)) name
      in p\<lparr>parts := butlast (parts p) @ [stem @ suffix']\<rparr>)"

definition path_parent :: "path \<Rightarrow> path" where
  "path_parent p = p\<lparr>parts := butlast (parts p)\<rparr>"

definition path_join :: "path \<Rightarrow> ustring \<Rightarrow> path" where
  "path_join p name = p\<lparr>parts := parts p @ [name]\<rparr>"

definition path_str :: "path \<Rightarrow> ustring" where
  "path_str p = anchor p @ str_join (u ''/'') (parts p)"

text \<open>
  The file system maps a path to a directory or to a file with its text (\<open>None\<close> for a
  file that cannot be read). The world is the file system and the number of engine
  processes run so far.
\<close>

datatype node = Dir | File "ustring option"

type_synonym filesystem = "path \<Rightarrow> node option"

record world =
  w_fs :: filesystem
  w_runs :: nat

definition path_exists :: "filesystem \<Rightarrow> path \<Rightarrow> bool" where
  "path_exists f p = (f p \<noteq> None)"

definition is_file :: "filesystem \<Rightarrow> path \<Rightarrow> bool" where
  "is_file f p = (case f p of Some (File d) \<Rightarrow> True | _ \<Rightarrow> False)"

text \<open>Leaving the \<open>with\<close> block removes the temporary directory and all below it.\<close>

definition rmtree :: "path \<Rightarrow> filesystem \<Rightarrow> filesystem" where
  "rmtree d f = (\<lambda>q. if anchor q = anchor d \<and> prefix (parts d) (parts q) then None else f q)"

datatype py_error =
  FileNotFoundError ustring
| ValueError ustring
| Exception ustring
| UnboundLocalError
| OSError ustring

record completed =
  returncode :: int
  stdout :: ustring
  stderr :: ustring

datatype run_result = Completed completed | TimeoutExpired | RunError ustring

text \<open>
  What the code calls outside the repository: the Unicode tables, \<open>Path(...)\<close>, which
  reads a path from the string given (the reading depends on the platform), the name that
  \<open>tempfile\<close> picks for the new directory, \<open>shutil.copy2\<close> (the message of the
  \<open>OSError\<close> it raised, if any, and the file system it leaves), the listing of a
  directory (or the message of its \<open>OSError\<close>), and \<open>subprocess.run\<close> with its
  command and working directory (what it returned or raised, and the file system the
  process leaves).
\<close>

record env =
  unicode :: ucd
  path_of :: "ustring \<Rightarrow> path"
  mkdtemp :: "filesystem \<Rightarrow> path"
  copy2 :: "path \<Rightarrow> path \<Rightarrow> filesystem \<Rightarrow> ustring option \<times> filesystem"
  iterdir :: "path \<Rightarrow> filesystem \<Rightarrow> ustring + path list"
  subprocess_run :: "ustring list \<Rightarrow> path \<Rightarrow> world \<Rightarrow> run_result \<times> filesystem"

record converter =
  engine :: ustring
  cleanup :: bool
  verbose :: bool

subsection \<open>One pass, and the loop of passes\<close>

definition run_latex_command ::
  "env \<Rightarrow> converter \<Rightarrow> path \<Rightarrow> path \<Rightarrow> int \<Rightarrow> world \<Rightarrow> (py_error + completed) \<times> world" where
  "run_latex_command E self tex_file output_dir pass_number w =
     (let cmd = [engine self, u ''-interaction=nonstopmode'', u ''-halt-on-error'',
                 u ''-output-directory='' @ path_str output_dir, path_str tex_file]
      in case subprocess_run E cmd (path_parent tex_file) w of
        (r, f) \<Rightarrow>
          (let w' = \<lparr>w_fs = f, w_runs = Suc (w_runs w)\<rparr> in
           case r of
             Completed result \<Rightarrow> (Inr result, w')
           | TimeoutExpired \<Rightarrow> (Inl (Exception (u ''LaTeX compilation timed out (5 minutes)'')), w')
           | RunError e \<Rightarrow> (Inl (Exception (u ''Failed to run '' @ engine self @ u '': '' @ e)), w')))"

definition read_log :: "filesystem \<Rightarrow> path \<Rightarrow> ustring" where
  "read_log f log_file = (case f log_file of Some (File (Some d)) \<Rightarrow> d | _ \<Rightarrow> [])"

text \<open>The message of the exception raised on a nonzero exit code.\<close>

definition error_msg :: "ustring list \<Rightarrow> ustring \<Rightarrow> ustring \<Rightarrow> ustring" where
  "error_msg errors stderr_text log_content =
     u ''LaTeX compilation failed!'' @ [newline, newline]
     @ (if errors \<noteq> [] then u ''ERRORS:'' @ [newline] @ str_join [newline, newline] errors
          @ [newline, newline] else [])
     @ (if stderr_text \<noteq> [] then u ''STDERR:'' @ [newline] @ stderr_text @ [newline, newline] else [])
     @ (if log_content \<noteq> [] then u ''For full details, check the log output above.'' else [])"

text \<open>
  The loop \<open>for pass_num in range(1, max_passes + 1)\<close> from \<open>pass_num\<close> on. The
  variable \<open>log_content\<close> is bound only inside the loop, so it is an option here, and
  the loop returns it.
\<close>

function pass_loop ::
  "env \<Rightarrow> converter \<Rightarrow> path \<Rightarrow> path \<Rightarrow> path \<Rightarrow> int \<Rightarrow> int \<Rightarrow> ustring option \<Rightarrow> world
     \<Rightarrow> (py_error + ustring option) \<times> world" where
  "pass_loop E self temp_tex temp_path log_file pass_num max_passes log_content w =
     (if max_passes < pass_num then (Inr log_content, w)
      else
        case run_latex_command E self temp_tex temp_path pass_num w of
          (Inl e, w1) \<Rightarrow> (Inl e, w1)
        | (Inr result, w1) \<Rightarrow>
            (let log_content1 = read_log (w_fs w1) log_file in
             if returncode result \<noteq> 0 then
               (Inl (Exception (error_msg (fst (parse_latex_errors log_content1))
                  (stderr result) log_content1)), w1)
             else if pass_num < max_passes \<and> needs_multiple_passes log_content1 then
               pass_loop E self temp_tex temp_path log_file (pass_num + 1) max_passes
                 (Some log_content1) w1
             else (Inr (Some log_content1), w1)))"
  by pat_completeness auto
termination
  by (relation "measure (\<lambda>(E, self, temp_tex, temp_path, log_file, pass_num, max_passes, log_content, w).
        nat (max_passes - pass_num))") auto

declare pass_loop.simps [simp del]

subsection \<open>The conversion\<close>

definition extensions_to_copy :: "ustring list" where
  "extensions_to_copy = [u ''.bib'', u ''.cls'', u ''.sty'', u ''.bst'', u ''.png'', u ''.jpg'',
     u ''.jpeg'', u ''.pdf'', u ''.eps'', u ''.svg'']"

definition copy_additional_files ::
  "env \<Rightarrow> path \<Rightarrow> path \<Rightarrow> filesystem \<Rightarrow> ustring option \<times> filesystem" where
  "copy_additional_files E source_dir dest_dir f =
     (case iterdir E source_dir f of
        Inl e \<Rightarrow> (Some e, f)
      | Inr entries \<Rightarrow>
          (None, foldl (\<lambda>f file_path.
              if is_file f file_path
                 \<and> str_lower (unicode E) (path_suffix file_path) \<in> set extensions_to_copy
              then snd (copy2 E file_path dest_dir f) else f) f entries))"

text \<open>
  The body of the \<open>with\<close> block, with \<open>temp_path\<close> the directory just made. The
  conversion takes the arguments \<open>tex_file\<close> and \<open>output_pdf\<close> as the strings given;
  the message of \<open>FileNotFoundError\<close> shows \<open>tex_file\<close> as given.
\<close>

definition with_body ::
  "env \<Rightarrow> converter \<Rightarrow> path \<Rightarrow> path \<Rightarrow> int \<Rightarrow> path \<Rightarrow> world \<Rightarrow> (py_error + path) \<times> world" where
  "with_body E self tex_path output_pdf max_passes temp_path w =
     (let temp_tex = path_join temp_path (path_name tex_path) in
      case copy2 E tex_path temp_tex (w_fs w) of
        (Some e, f1) \<Rightarrow> (Inl (OSError e), w\<lparr>w_fs := f1\<rparr>)
      | (None, f1) \<Rightarrow>
     (case copy_additional_files E (path_parent tex_path) temp_path f1 of
        (Some e, f2) \<Rightarrow> (Inl (OSError e), w\<lparr>w_fs := f2\<rparr>)
      | (None, f2) \<Rightarrow>
     (let log_file = path_join temp_path (path_name (with_suffix tex_path (u ''.log'')));
          pdf_file = path_join temp_path (path_name (with_suffix tex_path (u ''.pdf'')))
      in
      case pass_loop E self temp_tex temp_path log_file 1 max_passes None (w\<lparr>w_fs := f2\<rparr>) of
        (Inl e, w3) \<Rightarrow> (Inl e, w3)
      | (Inr log_content, w3) \<Rightarrow>
     (if \<not> path_exists (w_fs w3) pdf_file then
        (Inl (Exception (u ''PDF file was not created, but no obvious errors were found'')), w3)
      else
     (case copy2 E pdf_file output_pdf (w_fs w3) of
        (Some e, f4) \<Rightarrow> (Inl (OSError e), w3\<lparr>w_fs := f4\<rparr>)
      | (None, f4) \<Rightarrow>
     (if verbose self then
        (case log_content of
           None \<Rightarrow> (Inl UnboundLocalError, w3\<lparr>w_fs := f4\<rparr>)
         | Some l \<Rightarrow> (Inr output_pdf, w3\<lparr>w_fs := f4\<rparr>))
      else (Inr output_pdf, w3\<lparr>w_fs := f4\<rparr>)))))))"

definition convert_to_pdf ::
  "env \<Rightarrow> converter \<Rightarrow> ustring \<Rightarrow> ustring option \<Rightarrow> int \<Rightarrow> world
     \<Rightarrow> (py_error + path) \<times> world" where
  "convert_to_pdf E self tex_file output_pdf max_passes w =
     (let tex_path = path_of E tex_file in
      if \<not> path_exists (w_fs w) tex_path then
        (Inl (FileNotFoundError (u ''LaTeX file not found: '' @ tex_file)), w)
      else if \<not> str_lower (unicode E) (path_suffix tex_path) = u ''.tex'' then
        (Inl (ValueError (u ''Input file must have .tex extension'')), w)
      else
        (let output_pdf1 = (case output_pdf of None \<Rightarrow> with_suffix tex_path (u ''.pdf'')
                             | Some p \<Rightarrow> path_of E p);
             temp_path = mkdtemp E (w_fs w);
             w0 = w\<lparr>w_fs := (w_fs w)(temp_path \<mapsto> Dir)\<rparr>
         in case with_body E self tex_path output_pdf1 max_passes temp_path w0 of
              (r, w') \<Rightarrow> (r, w'\<lparr>w_fs := rmtree temp_path (w_fs w')\<rparr>)))"

subsection \<open>Reading the emitted lines\<close>

text \<open>
  The number of lists that the flags of the emitter say are open, and the statement that
  reading the lines emitted so far leaves exactly that many environments open.
\<close>

definition open_lists :: "emitter \<Rightarrow> nat" where
  "open_lists e = (if in_itemize e then 1 else 0) + (if in_subitemize e then 1 else 0)"

definition tracks :: "emitter \<Rightarrow> bool" where
  "tracks e = (\<forall>ls. balanced 0 (latex_content e @ ls) = balanced (open_lists e) ls)"

text \<open>
  The same for the string returned, whose lines are the pieces of the emitted lines
  between newlines (a text may contain newlines): reading the pieces of the lines
  emitted so far leaves as many environments open as the flags say. A string has no
  list command when neither \<open>\b\<close> nor \<open>\e\<close> occurs in it; then none of its pieces is
  \<open>\begin{itemize}\<close> or \<open>\end{itemize}\<close>.
\<close>

definition tracks_pieces :: "emitter \<Rightarrow> bool" where
  "tracks_pieces e =
     (\<forall>ls. balanced 0 (concat (map (str_split newline) (latex_content e)) @ ls)
             = balanced (open_lists e) ls)"

definition no_list_command :: "ustring \<Rightarrow> bool" where
  "no_list_command s = (\<not> sublist [backslash, 98] s \<and> \<not> sublist [backslash, 101] s)"

subsection \<open>Three concrete runs\<close>

text \<open>
  A small world to run the conversion in: the file \<open>/work/doc.TEX\<close>, the reading of a
  path string on POSIX (the anchor is the leading slash; empty components and single
  dots are dropped), the temporary directory \<open>/tmp/tmpdir\<close>, a copy that writes the
  text of a readable file to the target (into it, when the target is a directory), an
  empty listing, and three engines. The first engine asks for a rerun in the log of its
  first run and writes the PDF in its second; the second engine stops with exit code 1
  and an error in the log; the third engine does as the first, but never writes a PDF.
\<close>

definition posix_path :: "ustring \<Rightarrow> path" where
  "posix_path s =
     \<lparr>anchor = (if prefix (u ''//'') s \<and> \<not> prefix (u ''///'') s then u ''//''
                else if prefix (u ''/'') s then u ''/'' else []),
      parts = filter (\<lambda>c. c \<noteq> [] \<and> c \<noteq> u ''.'') (str_split 47 s)\<rparr>"

definition demo_tex_file :: ustring where
  "demo_tex_file = u ''/work/doc.TEX''"

definition demo_tex :: path where
  "demo_tex = \<lparr>anchor = u ''/'', parts = [u ''work'', u ''doc.TEX'']\<rparr>"

definition demo_out :: path where
  "demo_out = \<lparr>anchor = u ''/'', parts = [u ''work'', u ''doc.pdf'']\<rparr>"

definition demo_tmp :: path where
  "demo_tmp = \<lparr>anchor = u ''/'', parts = [u ''tmp'', u ''tmpdir'']\<rparr>"

definition demo_temp_tex :: path where
  "demo_temp_tex = \<lparr>anchor = u ''/'', parts = [u ''tmp'', u ''tmpdir'', u ''doc.TEX'']\<rparr>"

definition demo_log :: path where
  "demo_log = \<lparr>anchor = u ''/'', parts = [u ''tmp'', u ''tmpdir'', u ''doc.log'']\<rparr>"

definition demo_pdf :: path where
  "demo_pdf = \<lparr>anchor = u ''/'', parts = [u ''tmp'', u ''tmpdir'', u ''doc.pdf'']\<rparr>"

definition demo_fs :: filesystem where
  "demo_fs = (\<lambda>p. if p = demo_tex then Some (File (Some (u ''text'')))
                   else if p = path_parent demo_tex then Some Dir else None)"

definition demo_world :: world where
  "demo_world = \<lparr>w_fs = demo_fs, w_runs = 0\<rparr>"

definition demo_copy2 :: "path \<Rightarrow> path \<Rightarrow> filesystem \<Rightarrow> ustring option \<times> filesystem" where
  "demo_copy2 src dst f =
     (case f src of
        Some (File (Some d)) \<Rightarrow>
          (None, f((if f dst = Some Dir then path_join dst (path_name src) else dst) \<mapsto> File (Some d)))
      | _ \<Rightarrow> (Some (u ''cannot read''), f))"

definition ok :: completed where
  "ok = \<lparr>returncode = 0, stdout = [], stderr = []\<rparr>"

definition rerun_engine :: "ustring list \<Rightarrow> path \<Rightarrow> world \<Rightarrow> run_result \<times> filesystem" where
  "rerun_engine cmd cwd w =
     (if w_runs w = 0 then
        (Completed ok,
         (w_fs w)(demo_log \<mapsto> File (Some (u ''LaTeX Warning: Label(s) may have changed. Rerun to get cross-references right.''))))
      else
        (Completed ok,
         (w_fs w)(demo_log \<mapsto> File (Some (u ''Output written on doc.pdf (1 page).'')),
                  demo_pdf \<mapsto> File (Some (u ''%PDF'')))))"

definition failing_engine :: "ustring list \<Rightarrow> path \<Rightarrow> world \<Rightarrow> run_result \<times> filesystem" where
  "failing_engine cmd cwd w =
     (Completed \<lparr>returncode = 1, stdout = [], stderr = u ''halted''\<rparr>,
      (w_fs w)(demo_log \<mapsto> File (Some (u ''! Undefined control sequence.''))))"

definition nopdf_engine :: "ustring list \<Rightarrow> path \<Rightarrow> world \<Rightarrow> run_result \<times> filesystem" where
  "nopdf_engine cmd cwd w =
     (if w_runs w = 0 then
        (Completed ok,
         (w_fs w)(demo_log \<mapsto> File (Some (u ''LaTeX Warning: Label(s) may have changed. Rerun to get cross-references right.''))))
      else
        (Completed ok, (w_fs w)(demo_log \<mapsto> File (Some (u ''No pages of output.'')))))"

definition demo_env :: "(ustring list \<Rightarrow> path \<Rightarrow> world \<Rightarrow> run_result \<times> filesystem) \<Rightarrow> env" where
  "demo_env run = \<lparr>unicode = ascii_ucd, path_of = posix_path, mkdtemp = (\<lambda>f. demo_tmp),
     copy2 = demo_copy2, iterdir = (\<lambda>d f. Inr []), subprocess_run = run\<rparr>"

definition demo_self :: converter where
  "demo_self = \<lparr>engine = u ''pdflatex'', cleanup = True, verbose = False\<rparr>"

text \<open>
  The world when the loop of passes starts (the temporary directory made, the source
  copied into it), and the worlds that the passes of an engine go through from there.
\<close>

definition setup_world :: world where
  "setup_world =
     \<lparr>w_fs = demo_fs(demo_tmp \<mapsto> Dir, demo_temp_tex \<mapsto> File (Some (u ''text''))), w_runs = 0\<rparr>"

fun demo_worlds :: "(ustring list \<Rightarrow> path \<Rightarrow> world \<Rightarrow> run_result \<times> filesystem) \<Rightarrow> nat \<Rightarrow> world" where
  "demo_worlds run 0 = setup_world"
| "demo_worlds run (Suc j) =
     snd (run_latex_command (demo_env run) demo_self demo_temp_tex demo_tmp
            (1 + int j) (demo_worlds run j))"


definition failed :: completed where
  "failed = \<lparr>returncode = 1, stdout = [], stderr = u ''halted''\<rparr>"

section \<open>Escaping: the order of the table\<close>

text \<open>
  C1. The claim: \<open>escape("100% & $5")\<close> yields a string in which \<open>\%\<close>, \<open>\&\<close> and
  \<open>\$\<close> appear and no literal \<open>%\<close>, \<open>&\<close>, \<open>$\<close> remains. The table replaces the
  backslash last, so the backslashes that the earlier substitutions introduced are
  escaped themselves: the result is
  \<open>100\textbackslash{}% \textbackslash{}& \textbackslash{}$5\<close>, in which none of
  \<open>\%\<close>, \<open>\&\<close>, \<open>\$\<close> occurs and each of \<open>%\<close>, \<open>&\<close>, \<open>$\<close> follows a closing brace.
\<close>

theorem escape_latex_double_escapes:
  "escape_latex (u ''100% & $5'') =
     u ''100'' @ backslash # u ''textbackslash{}% '' @ backslash # u ''textbackslash{}& ''
       @ backslash # u ''textbackslash{}$5''
   \<and> \<not> sublist (backslash # u ''%'') (escape_latex (u ''100% & $5''))
   \<and> \<not> sublist (backslash # u ''&'') (escape_latex (u ''100% & $5''))
   \<and> \<not> sublist (backslash # u ''$'') (escape_latex (u ''100% & $5''))
   \<and> sublist (u ''}%'') (escape_latex (u ''100% & $5''))
   \<and> sublist (u ''}&'') (escape_latex (u ''100% & $5''))
   \<and> sublist (u ''}$'') (escape_latex (u ''100% & $5''))"
  by code_simp

section \<open>The classifier\<close>

lemma identify_loop_length:
  "length (identify_loop U ctx ls sc) = length sc + length (filter (\<lambda>l. str_strip l \<noteq> []) ls)"
  by (induction ls arbitrary: sc) (simp_all add: Let_def)

text \<open>
  C6. For every input text the classifier yields one block for each line whose stripped
  text is not empty: the number of blocks is the number of those lines.
\<close>

theorem identify_structure_length:
  "length (identify_structure U text)
     = length (filter (\<lambda>l. str_strip l \<noteq> []) (str_split newline text))"
  by (simp add: identify_structure_def Let_def identify_loop_length)

lemma is_title_ctx: "is_title U line ctx1 = is_title U line ctx2"
  by (simp add: is_title_def)

lemma identify_loop_Cons:
  "identify_loop U ctx (l # ls) sc = identify_loop U ctx ls (sc @ identify_loop U ctx [l] [])"
  by (simp add: Let_def)

lemma identify_loop_acc:
  "identify_loop U ctx ls sc = sc @ identify_loop U ctx ls []"
proof (induction ls arbitrary: sc)
  case Nil
  show ?case by simp
next
  case (Cons l ls)
  have "identify_loop U ctx (l # ls) sc = (sc @ identify_loop U ctx [l] []) @ identify_loop U ctx ls []"
    by (subst identify_loop_Cons, subst Cons.IH) (rule refl)
  also have "\<dots> = sc @ identify_loop U ctx (l # ls) []"
    by (subst (2) identify_loop_Cons, subst (2) Cons.IH) simp
  finally show ?case .
qed

lemma identify_loop_ctx:
  "identify_loop U ctx1 ls sc = identify_loop U ctx2 ls sc"
  by (induction ls arbitrary: sc) (simp_all add: Let_def is_title_ctx [of _ _ ctx1 ctx2])

lemma identify_loop_concat:
  "identify_loop U ctx ls [] = concat (map (\<lambda>l. identify_loop U [l] [l] []) ls)"
proof (induction ls)
  case Nil
  show ?case by simp
next
  case (Cons l ls)
  have "identify_loop U ctx (l # ls) [] = identify_loop U ctx [l] [] @ identify_loop U ctx ls []"
    by (subst identify_loop_Cons, subst identify_loop_acc) simp
  also have "identify_loop U ctx [l] [] = identify_loop U [l] [l] []"
    by (rule identify_loop_ctx)
  finally show ?case using Cons.IH by simp
qed

lemma str_split_no_sep: "l \<in> set (str_split sep s) \<Longrightarrow> sep \<notin> set l"
  by (induction s arbitrary: l) (auto split: if_splits list.splits)

lemma str_split_single: "sep \<notin> set l \<Longrightarrow> str_split sep l = [l]"
  by (induction l) auto

lemma identify_structure_concat:
  "identify_structure U text = concat (map (identify_structure U) (str_split newline text))"
proof -
  have eq: "identify_loop U [l] [l] [] = identify_structure U l"
    if "l \<in> set (str_split newline text)" for l
    using that
    by (simp add: identify_structure_def Let_def str_split_single str_split_no_sep
          del: identify_loop.simps)
  have "identify_structure U text
      = concat (map (\<lambda>l. identify_loop U [l] [l] []) (str_split newline text))"
    unfolding identify_structure_def Let_def by (rule identify_loop_concat)
  also have "\<dots> = concat (map (identify_structure U) (str_split newline text))"
    by (rule arg_cong [where f = concat], rule map_cong [OF refl], rule eq)
  finally show ?thesis .
qed


text \<open>
  C7. Classification is local to the line. The title rule gives the same answer for any
  two lists of all lines; the loop over the lines gives the same blocks for any two such
  lists; and the blocks of a text are the blocks of each of its lines classified alone,
  one after the other, so the lines around a line have no effect on its block.
\<close>

theorem classification_line_local:
  "is_title U line all_lines1 = is_title U line all_lines2
   \<and> identify_loop U all_lines1 ls [] = identify_loop U all_lines2 ls []
   \<and> identify_structure U text = concat (map (identify_structure U) (str_split newline text))"
  using is_title_ctx identify_loop_ctx identify_structure_concat by blast

section \<open>The log parser\<close>

lemma parse_step_error:
  "prefix (u ''!'') l \<or> sublist (u ''Error:'') l \<Longrightarrow>
   parse_step L (es, ws) (i, l) =
     (es @ [str_join [newline] (map (\<lambda>j. L ! j) [i - 2..<min (length L) (i + 3)])], ws)"
proof -
  have start: "nat (max 0 (int i - 2)) = i - 2" by linarith
  assume "prefix (u ''!'') l \<or> sublist (u ''Error:'') l"
  then show ?thesis
    by (simp add: parse_step_def Let_def start)
qed

lemma parse_step_warning:
  "\<not> (prefix (u ''!'') l \<or> sublist (u ''Error:'') l) \<Longrightarrow>
   sublist (u ''Warning:'') l \<or> prefix (u ''LaTeX Warning:'') l \<Longrightarrow>
   parse_step L (es, ws) (i, l) = (es, ws @ [str_strip l])"
  unfolding parse_step_def by simp

lemma parse_step_other:
  "\<not> (prefix (u ''!'') l \<or> sublist (u ''Error:'') l) \<Longrightarrow>
   \<not> (sublist (u ''Warning:'') l \<or> prefix (u ''LaTeX Warning:'') l) \<Longrightarrow>
   parse_step L (es, ws) (i, l) = (es, ws)"
  unfolding parse_step_def by simp

lemma parse_foldl:
  "foldl (parse_step L) (es, ws) xs =
     (es @ map (\<lambda>(i, l). str_join [newline] (map (\<lambda>j. L ! j) [i - 2..<min (length L) (i + 3)]))
            (filter (\<lambda>(i, l). prefix (u ''!'') l \<or> sublist (u ''Error:'') l) xs),
      ws @ map (\<lambda>(i, l). str_strip l)
            (filter (\<lambda>(i, l). \<not> (prefix (u ''!'') l \<or> sublist (u ''Error:'') l)
                 \<and> (sublist (u ''Warning:'') l \<or> prefix (u ''LaTeX Warning:'') l)) xs))"
proof (induction xs arbitrary: es ws)
  case Nil
  show ?case by simp
next
  case (Cons x xs)
  obtain i l where x: "x = (i, l)" by (cases x)
  consider (e) "prefix (u ''!'') l \<or> sublist (u ''Error:'') l"
    | (w) "\<not> (prefix (u ''!'') l \<or> sublist (u ''Error:'') l)"
          "sublist (u ''Warning:'') l \<or> prefix (u ''LaTeX Warning:'') l"
    | (o) "\<not> (prefix (u ''!'') l \<or> sublist (u ''Error:'') l)"
          "\<not> (sublist (u ''Warning:'') l \<or> prefix (u ''LaTeX Warning:'') l)"
    by blast
  then show ?case
  proof cases
    case e
    then have nw: "(\<not> (prefix (u ''!'') l \<or> sublist (u ''Error:'') l)
        \<and> (sublist (u ''Warning:'') l \<or> prefix (u ''LaTeX Warning:'') l)) = False"
      by blast
    show ?thesis
      unfolding x foldl_Cons parse_step_error [OF e] Cons.IH using e by auto
  next
    case w
    show ?thesis
      unfolding x foldl_Cons parse_step_warning [OF w] Cons.IH using w by simp
  next
    case o
    show ?thesis
      unfolding x foldl_Cons parse_step_other [OF o] Cons.IH using o by simp
  qed
qed

lemma enumerate_nth: "enumerate 0 L = map (\<lambda>i. (i, L ! i)) [0..<length L]"
  by (rule nth_equalityI) (simp_all add: nth_enumerate_eq)

lemma map_nth_upt: "b \<le> length L \<Longrightarrow> map (\<lambda>j. L ! j) [a..<b] = take (b - a) (drop a L)"
  by (rule nth_equalityI) (auto simp: min_def)

lemma context_slice:
  assumes "i < length L"
  shows "map (\<lambda>j. L ! j) [i - 2..<min (length L) (i + 3)]
       = drop (i - 2) (take i L) @ [L ! i] @ take 2 (drop (Suc i) L)"
proof -
  let ?m = "min (length L) (i + 3)"
  have m: "Suc i \<le> ?m" "?m \<le> length L" using assms by simp_all
  have "[i - 2..<?m] = [i - 2..<i] @ [i] @ [Suc i..<?m]"
    using m(1) by (metis Suc_le_lessD append_Cons append_Nil diff_le_self le_Suc_ex less_imp_le_nat upt_add_eq_append upt_conv_Cons)
  then have "map (\<lambda>j. L ! j) [i - 2..<?m]
      = map (\<lambda>j. L ! j) [i - 2..<i] @ [L ! i] @ map (\<lambda>j. L ! j) [Suc i..<?m]"
    by simp
  also have "map (\<lambda>j. L ! j) [i - 2..<i] = drop (i - 2) (take i L)"
    using assms by (simp add: map_nth_upt drop_take)
  also have "map (\<lambda>j. L ! j) [Suc i..<?m] = take 2 (drop (Suc i) L)"
    using m(2) by (simp add: map_nth_upt min_def)
  finally show ?thesis .
qed

lemma parse_latex_errors_fst:
  "fst (parse_latex_errors log_content) =
     map (\<lambda>i. str_join [newline]
            (drop (i - 2) (take i (str_split newline log_content))
             @ [str_split newline log_content ! i]
             @ take 2 (drop (Suc i) (str_split newline log_content))))
       (filter (\<lambda>i. prefix (u ''!'') (str_split newline log_content ! i)
                    \<or> sublist (u ''Error:'') (str_split newline log_content ! i))
          [0..<length (str_split newline log_content)])"
proof -
  let ?L = "str_split newline log_content"
  let ?P = "\<lambda>i. prefix (u ''!'') (?L ! i) \<or> sublist (u ''Error:'') (?L ! i)"
  have "fst (parse_latex_errors log_content) =
      map (\<lambda>(i, l). str_join [newline] (map (\<lambda>j. ?L ! j) [i - 2..<min (length ?L) (i + 3)]))
        (filter (\<lambda>(i, l). prefix (u ''!'') l \<or> sublist (u ''Error:'') l)
           (map (\<lambda>i. (i, ?L ! i)) [0..<length ?L]))"
    by (simp add: parse_latex_errors_def Let_def parse_foldl enumerate_nth)
  also have "\<dots> = map (\<lambda>i. str_join [newline] (map (\<lambda>j. ?L ! j) [i - 2..<min (length ?L) (i + 3)]))
        (filter ?P [0..<length ?L])"
    by (simp add: filter_map comp_def)
  also have "\<dots> = map (\<lambda>i. str_join [newline]
        (drop (i - 2) (take i ?L) @ [?L ! i] @ take 2 (drop (Suc i) ?L))) (filter ?P [0..<length ?L])"
    by (rule map_cong [OF refl]) (simp add: context_slice)
  finally show ?thesis .
qed

lemma parse_latex_errors_snd:
  "snd (parse_latex_errors log_content) =
     map str_strip
       (filter (\<lambda>l. \<not> (prefix (u ''!'') l \<or> sublist (u ''Error:'') l)
                    \<and> (sublist (u ''Warning:'') l \<or> prefix (u ''LaTeX Warning:'') l))
          (str_split newline log_content))"
proof -
  let ?L = "str_split newline log_content"
  let ?Q = "\<lambda>l. \<not> (prefix (u ''!'') l \<or> sublist (u ''Error:'') l)
                    \<and> (sublist (u ''Warning:'') l \<or> prefix (u ''LaTeX Warning:'') l)"
  have "snd (parse_latex_errors log_content) =
      map (\<lambda>(i, l). str_strip l) (filter (\<lambda>(i, l). ?Q l) (enumerate 0 ?L))"
    by (simp add: parse_latex_errors_def Let_def parse_foldl)
  also have "\<dots> = map str_strip (map snd (filter (?Q \<circ> snd) (enumerate 0 ?L)))"
    by (simp add: comp_def case_prod_unfold)
  also have "\<dots> = map str_strip (filter ?Q (map snd (enumerate 0 ?L)))"
    by (simp only: filter_map)
  finally show ?thesis by (simp only: map_snd_enumerate)
qed

lemma parse_latex_errors_length:
  "length (fst (parse_latex_errors log_content)) =
     length (filter (\<lambda>l. prefix (u ''!'') l \<or> sublist (u ''Error:'') l)
          (str_split newline log_content))"
proof -
  let ?L = "str_split newline log_content"
  let ?P = "\<lambda>l. prefix (u ''!'') l \<or> sublist (u ''Error:'') l"
  have "length (fst (parse_latex_errors log_content))
      = length (filter (\<lambda>(i, l). ?P l) (enumerate 0 ?L))"
    by (simp add: parse_latex_errors_def Let_def parse_foldl)
  also have "\<dots> = length (map snd (filter (?P \<circ> snd) (enumerate 0 ?L)))"
    by (simp add: comp_def case_prod_unfold)
  also have "\<dots> = length (filter ?P (map snd (enumerate 0 ?L)))"
    by (simp only: filter_map)
  finally show ?thesis by (simp only: map_snd_enumerate)
qed

text \<open>
  C5. The claim: every error block has exactly 2 lines of leading context. The code
  starts the block at \<open>max(0, i-2)\<close>, so a fatal line that is the first or the second
  line of the log has no or one line before it: a log of the single line
  \<open>! Undefined control sequence\<close> gives a block of that line alone, and a fatal
  second line gives a block with one line before it.
\<close>

theorem error_block_short_leading_context:
  "parse_latex_errors (u ''! Undefined control sequence'')
     = ([u ''! Undefined control sequence''], [])
   \<and> str_split newline (hd (fst (parse_latex_errors (u ''! Undefined control sequence''))))
     = [u ''! Undefined control sequence'']
   \<and> parse_latex_errors (u ''a'' @ [newline] @ u ''! x'' @ [newline] @ u ''b'')
     = ([u ''a'' @ [newline] @ u ''! x'' @ [newline] @ u ''b''], [])"
  by code_simp

text \<open>
  C5, amended. For every log, the error blocks are, in the order of the fatal lines
  (the lines that start with \<open>!\<close> or contain \<open>Error:\<close>), for the fatal line at index
  \<open>i\<close>: the up to 2 lines before it (the lines \<open>i-2\<close> and \<open>i-1\<close> that exist), the line
  itself, and the up to 2 lines after it, joined by newlines.
\<close>

theorem error_block_context:
  "fst (parse_latex_errors log_content) =
     map (\<lambda>i. str_join [newline]
            (drop (i - 2) (take i (str_split newline log_content))
             @ [str_split newline log_content ! i]
             @ take 2 (drop (Suc i) (str_split newline log_content))))
       (filter (\<lambda>i. prefix (u ''!'') (str_split newline log_content ! i)
                    \<or> sublist (u ''Error:'') (str_split newline log_content ! i))
          [0..<length (str_split newline log_content)])"
  by (rule parse_latex_errors_fst)

text \<open>
  C9. A line is an error or a warning, never both, and the error wins: the warnings are
  the stripped lines that are not fatal and contain \<open>Warning:\<close>, in order, and every
  fatal line gives one error block, also when it contains \<open>Warning:\<close>.
\<close>

theorem error_precedes_warning:
  "snd (parse_latex_errors log_content) =
     map str_strip
       (filter (\<lambda>l. \<not> (prefix (u ''!'') l \<or> sublist (u ''Error:'') l)
                    \<and> (sublist (u ''Warning:'') l \<or> prefix (u ''LaTeX Warning:'') l))
          (str_split newline log_content))
   \<and> length (fst (parse_latex_errors log_content)) =
     length (filter (\<lambda>l. prefix (u ''!'') l \<or> sublist (u ''Error:'') l)
          (str_split newline log_content))"
  using parse_latex_errors_snd parse_latex_errors_length by blast

text \<open>A fatal line that contains \<open>Warning:\<close> is an error only; the warning line is stripped.\<close>

lemma error_precedes_warning_example:
  "parse_latex_errors (u ''! Package Warning: x'' @ [newline] @ u ''  LaTeX Warning: y  '')
   = ([u ''! Package Warning: x'' @ [newline] @ u ''  LaTeX Warning: y  ''], [u ''LaTeX Warning: y''])"
  by code_simp

section \<open>The emitter\<close>

lemma str_replace_head:
  "str_replace b (b # c # r) t = b # x # xs \<Longrightarrow> x = c"
  by (cases t) (auto simp: str_replace_def split: if_splits)

lemma escape_latex_head:
  "escape_latex content = backslash # x # xs \<Longrightarrow> x = 116"
proof -
  have "\<exists>t. escape_latex content = str_replace backslash (backslash # 116 # u ''extbackslash{}'') t"
    by (simp add: escape_latex_def latex_special_chars_def u_def) (rule exI, rule refl)
  then show "escape_latex content = backslash # x # xs \<Longrightarrow> x = 116"
    using str_replace_head by metis
qed

lemma escape_latex_inert:
  "escape_latex content \<noteq> begin_itemize" "escape_latex content \<noteq> end_itemize"
  using escape_latex_head [of content]
  by (auto simp: begin_itemize_def end_itemize_def u_def)

lemma tracks_append_line:
  "tracks e \<Longrightarrow> l \<noteq> begin_itemize \<Longrightarrow> l \<noteq> end_itemize \<Longrightarrow> tracks (append_line l e)"
  by (simp add: tracks_def append_line_def open_lists_def)

lemma begin_not_end: "begin_itemize \<noteq> end_itemize"
  by (simp add: begin_itemize_def end_itemize_def u_def)

lemma tracks_close_subitemize: "tracks e \<Longrightarrow> tracks (close_subitemize e)"
  by (simp add: tracks_def close_subitemize_def append_line_def open_lists_def begin_not_end [symmetric])

lemma tracks_close_itemize: "tracks e \<Longrightarrow> tracks (close_itemize e)"
  by (simp add: tracks_def close_itemize_def append_line_def open_lists_def begin_not_end [symmetric])

lemma tracks_open_itemize:
  "tracks e \<Longrightarrow> \<not> in_itemize e \<Longrightarrow> tracks ((append_line begin_itemize e)\<lparr>in_itemize := True\<rparr>)"
  by (simp add: tracks_def append_line_def open_lists_def)

lemma tracks_open_subitemize:
  "tracks e \<Longrightarrow> \<not> in_subitemize e \<Longrightarrow> tracks ((append_line begin_itemize e)\<lparr>in_subitemize := True\<rparr>)"
  by (simp add: tracks_def append_line_def open_lists_def)

lemma command_inert:
  "c \<noteq> 98 \<Longrightarrow> c \<noteq> 101 \<Longrightarrow> backslash # c # rest \<noteq> begin_itemize"
  "c \<noteq> 98 \<Longrightarrow> c \<noteq> 101 \<Longrightarrow> backslash # c # rest \<noteq> end_itemize"
  by (simp_all add: begin_itemize_def end_itemize_def u_def)

lemma empty_inert: "[] \<noteq> begin_itemize" "[] \<noteq> end_itemize"
  by (simp_all add: begin_itemize_def end_itemize_def)

lemma tracks_emit_block:
  assumes "tracks e" shows "tracks (emit_block e b)"
proof -
  obtain content_type content where b: "b = (content_type, content)" by (cases b)
  note closed = tracks_close_itemize [OF tracks_close_subitemize [OF assms]]
  have b_title: "tracks (append_line [] (append_line (backslash # u ''maketitle'')
          (append_line (backslash # u ''title{'' @ escape_latex content @ u ''}'') e)))"
    by (intro tracks_append_line assms empty_inert) (simp_all add: u_def command_inert)
  have b_section: "tracks (append_line [] (append_line (backslash # u ''section{'' @ escape_latex content @ u ''}'')
          (close_itemize (close_subitemize e))))"
    by (intro tracks_append_line closed empty_inert) (simp_all add: u_def command_inert)
  have b_subsection: "tracks (append_line [] (append_line (backslash # u ''subsection{'' @ escape_latex content @ u ''}'')
          (close_itemize (close_subitemize e))))"
    by (intro tracks_append_line closed empty_inert) (simp_all add: u_def command_inert)
  have item: "tracks (append_line (backslash # u ''item '' @ escape_latex content) e')" if "tracks e'" for e'
    by (intro tracks_append_line that) (simp_all add: u_def command_inert)
  have b_bullet1: "tracks (let e1 = close_subitemize e;
             e2 = (if \<not> in_itemize e1 then (append_line begin_itemize e1)\<lparr>in_itemize := True\<rparr> else e1)
         in append_line (backslash # u ''item '' @ escape_latex content) e2)"
    unfolding Let_def
    by (rule item) (simp add: tracks_open_itemize tracks_close_subitemize assms)
  have b_bullet2: "tracks (let e1 = (if \<not> in_subitemize e then (append_line begin_itemize e)\<lparr>in_subitemize := True\<rparr> else e)
         in append_line (backslash # u ''item '' @ escape_latex content) e1)"
    unfolding Let_def
    by (rule item) (simp add: tracks_open_subitemize assms)
  have b_paragraph: "tracks (append_line [] (append_line (escape_latex content) (close_itemize (close_subitemize e))))"
    by (intro tracks_append_line closed empty_inert escape_latex_inert)
  show ?thesis
    unfolding b emit_block_def prod.case Let_def [of "escape_latex content"]
    using b_title b_section b_subsection b_bullet1 b_bullet2 b_paragraph assms by simp
qed

lemma tracks_foldl: "tracks e \<Longrightarrow> tracks (foldl emit_block e bs)"
  by (induction bs arbitrary: e) (simp_all add: tracks_emit_block)

lemma tracks_header: "tracks \<lparr>latex_content = header, in_itemize = False, in_subitemize = False\<rparr>"
  by (simp add: tracks_def open_lists_def header_def begin_itemize_def end_itemize_def u_def backslash_def)

lemma convert_to_latex_lines_eq:
  "convert_to_latex_lines structured_content =
     latex_content (foldl emit_block
        \<lparr>latex_content = header, in_itemize = False, in_subitemize = False\<rparr> structured_content)
     @ (if in_subitemize (foldl emit_block
        \<lparr>latex_content = header, in_itemize = False, in_subitemize = False\<rparr> structured_content)
        then [end_itemize] else [])
     @ (if in_itemize (foldl emit_block
        \<lparr>latex_content = header, in_itemize = False, in_subitemize = False\<rparr> structured_content)
        then [end_itemize] else [])
     @ [[], backslash # u ''end{document}'']"
  by (simp add: convert_to_latex_lines_def Let_def append_line_def)

lemma closing_balanced:
  "balanced ((if i then 1 else 0) + (if s then 1 else 0))
     ((if s then [end_itemize] else []) @ (if i then [end_itemize] else []))"
  "balanced ((if i then 1 else 0) + (if s then 1 else 0))
     ((if s then [end_itemize] else []) @ (if i then [end_itemize] else [])
        @ [[], backslash # u ''end{document}''])"
  by (simp_all add: begin_itemize_def end_itemize_def u_def)


subsection \<open>The lines of the string returned\<close>

text \<open>
  A text may contain newlines, so the lines of the string returned are the pieces of the
  emitted lines. Every backslash of an escaped text is followed by \<open>t\<close>, so no piece
  of a line that carries a text is \<open>\begin{itemize}\<close> or \<open>\end{itemize}\<close>.
\<close>

lemma sublist_mono: "sublist xs ys \<Longrightarrow> sublist xs (ps @ ys @ ss)"
proof -
  assume "sublist xs ys"
  then obtain a b where "ys = a @ xs @ b" by (auto simp: sublist_def)
  then have "ps @ ys @ ss = (ps @ a) @ xs @ (b @ ss)" by simp
  then show ?thesis unfolding sublist_def by blast
qed

lemma pair_append:
  "sublist [a, b] (ys @ zs) \<longleftrightarrow>
     sublist [a, b] ys \<or> sublist [a, b] zs \<or> (suffix [a] ys \<and> prefix [b] zs)"
proof (induction ys)
  case Nil
  then show ?case by simp
next
  case (Cons y ys)
  show ?case
  proof (cases ys)
    case Nil
    then show ?thesis
      by (auto simp: sublist_Cons_right suffix_Cons prefix_Cons)
  next
    case (Cons y' ys')
    have "prefix [a, b] ((y # ys) @ zs) = prefix [a, b] (y # ys)"
      unfolding Cons by (auto simp: prefix_Cons)
    moreover have "suffix [a] (y # ys) = suffix [a] ys"
      unfolding Cons by (auto simp: suffix_Cons)
    ultimately show ?thesis
      using Cons.IH by (simp add: sublist_Cons_right)
  qed
qed

lemma pair_in_replace:
  assumes "b \<notin> set (c # r)"
  shows "sublist [b, x] (str_replace b (b # c # r) t) \<Longrightarrow> x = c"
proof (induction t)
  case Nil
  then show ?case by (simp add: str_replace_def)
next
  case (Cons y ys)
  have unfold: "str_replace b (b # c # r) (y # ys)
      = (if y = b then b # c # r else [y]) @ str_replace b (b # c # r) ys"
    by (simp add: str_replace_def)
  from Cons.prems consider
      (first) "sublist [b, x] (if y = b then b # c # r else [y])"
    | (rest) "sublist [b, x] (str_replace b (b # c # r) ys)"
    | (border) "suffix [b] (if y = b then b # c # r else [y])"
    unfolding unfold pair_append by blast
  then show ?case
  proof cases
    case first
    show ?thesis
    proof (cases "y = b")
      case True
      with first have "prefix [b, x] (b # c # r) \<or> sublist [b, x] (c # r)"
        by (simp add: sublist_Cons_right)
      moreover have "\<not> sublist [b, x] (c # r)"
        using assms set_mono_sublist [of "[b, x]" "c # r"] by auto
      ultimately show ?thesis by simp
    next
      case False
      with first have "sublist [b, x] [y]" by simp
      then show ?thesis using sublist_length_le by fastforce
    qed
  next
    case rest
    then show ?thesis by (rule Cons.IH)
  next
    case border
    then have "b \<in> set (c # r)"
      by (cases "y = b") (auto simp: suffix_def Cons_eq_append_conv split: if_splits)
    with assms show ?thesis by simp
  qed
qed

lemma escape_latex_pair: "sublist [backslash, x] (escape_latex content) \<Longrightarrow> x = 116"
proof -
  have R: "backslash \<notin> set (116 # u ''extbackslash{}'')"
    by (simp add: u_def backslash_def)
  have "\<exists>t. escape_latex content = str_replace backslash (backslash # 116 # u ''extbackslash{}'') t"
    by (simp add: escape_latex_def latex_special_chars_def u_def) (rule exI, rule refl)
  then show "sublist [backslash, x] (escape_latex content) \<Longrightarrow> x = 116"
    using pair_in_replace [OF R] by metis
qed

lemma escape_latex_no_list_command: "no_list_command (escape_latex content)"
  using escape_latex_pair [of 98 content] escape_latex_pair [of 101 content]
  by (auto simp: no_list_command_def)


lemma no_list_command_append:
  "no_list_command xs \<Longrightarrow> no_list_command ys \<Longrightarrow> \<not> suffix [backslash] xs \<Longrightarrow>
   no_list_command (xs @ ys)"
  by (simp add: no_list_command_def pair_append)

lemma no_list_command_append_brace:
  "no_list_command xs \<Longrightarrow> no_list_command (xs @ u ''}'')"
  by (simp add: no_list_command_def pair_append u_def sublist_Cons_right)

lemma no_list_command_Nil: "no_list_command []"
  by (simp add: no_list_command_def)

lemma prefix_no_list_command:
  "no_list_command (backslash # u ''maketitle'')"
  "no_list_command (backslash # u ''title{'')" "\<not> suffix [backslash] (backslash # u ''title{'')"
  "no_list_command (backslash # u ''section{'')" "\<not> suffix [backslash] (backslash # u ''section{'')"
  "no_list_command (backslash # u ''subsection{'')" "\<not> suffix [backslash] (backslash # u ''subsection{'')"
  "no_list_command (backslash # u ''item '')" "\<not> suffix [backslash] (backslash # u ''item '')"
  by code_simp+

lemma str_split_nonempty: "str_split sep s \<noteq> []"
  by (induction s) (auto split: list.splits)

lemma hd_str_split_prefix: "prefix (hd (str_split sep s)) s"
  by (induction s) (auto split: list.splits)

lemma piece_sublist: "p \<in> set (str_split sep s) \<Longrightarrow> sublist p s"
proof (induction s arbitrary: p)
  case Nil
  then show ?case by simp
next
  case (Cons c cs)
  show ?case
  proof (cases "c = sep")
    case True
    with Cons.prems have "p = [] \<or> p \<in> set (str_split sep cs)" by auto
    then show ?thesis using Cons.IH by (auto simp: sublist_Cons_right)
  next
    case False
    obtain l ls where split: "str_split sep cs = l # ls"
      using str_split_nonempty [of sep cs] by (cases "str_split sep cs") auto
    with False Cons.prems have "p = c # l \<or> p \<in> set (str_split sep cs)" by auto
    moreover have "prefix (c # l) (c # cs)"
      using hd_str_split_prefix [of sep cs] split by simp
    ultimately show ?thesis using Cons.IH by (auto simp: sublist_Cons_right)
  qed
qed

lemma sublist_trans: "sublist xs ys \<Longrightarrow> sublist ys zs \<Longrightarrow> sublist xs zs"
proof -
  assume xs: "sublist xs ys" and "sublist ys zs"
  then obtain ps ss where "zs = ps @ ys @ ss" by (auto simp: sublist_def)
  then show ?thesis using sublist_mono [OF xs] by simp
qed

lemma list_command_pairs:
  "sublist [backslash, 98] begin_itemize" "sublist [backslash, 101] end_itemize"
  by code_simp+

lemma no_list_command_pieces:
  assumes "no_list_command s" and "p \<in> set (str_split newline s)"
  shows "p \<noteq> begin_itemize \<and> p \<noteq> end_itemize"
proof -
  have "sublist p s" using assms(2) by (rule piece_sublist)
  then show ?thesis
    using assms(1) list_command_pairs sublist_trans unfolding no_list_command_def by blast
qed

lemma balanced_inert:
  "(\<And>p. p \<in> set ps \<Longrightarrow> p \<noteq> begin_itemize \<and> p \<noteq> end_itemize) \<Longrightarrow>
   balanced n (ps @ ls) = balanced n ls"
  by (induction ps) simp_all

lemma str_split_append: "str_split sep (x @ sep # r) = str_split sep x @ str_split sep r"
proof (induction x)
  case Nil
  show ?case by simp
next
  case (Cons c cs)
  obtain l ls where "str_split sep cs = l # ls"
    using str_split_nonempty [of sep cs] by (cases "str_split sep cs") auto
  then show ?case using Cons.IH by simp
qed

lemma str_split_join:
  "ls \<noteq> [] \<Longrightarrow> str_split sep (str_join [sep] ls) = concat (map (str_split sep) ls)"
proof (induction "[sep]" ls rule: str_join.induct)
  case 1
  then show ?case by simp
next
  case (2 x)
  show ?case by simp
next
  case (3 x y ys)
  then show ?case by (simp add: str_split_append)
qed

lemma str_split_list_command:
  "str_split newline begin_itemize = [begin_itemize]"
  "str_split newline end_itemize = [end_itemize]"
  "str_split newline [] = [[]]"
  "str_split newline (backslash # u ''end{document}'') = [backslash # u ''end{document}'']"
  by code_simp+

lemma tracks_pieces_append_line:
  "tracks_pieces e \<Longrightarrow> no_list_command l \<Longrightarrow> tracks_pieces (append_line l e)"
  using no_list_command_pieces [of l]
  by (simp add: tracks_pieces_def append_line_def open_lists_def balanced_inert)

lemma tracks_pieces_close_subitemize: "tracks_pieces e \<Longrightarrow> tracks_pieces (close_subitemize e)"
  by (simp add: tracks_pieces_def close_subitemize_def append_line_def open_lists_def
        str_split_list_command begin_not_end [symmetric])

lemma tracks_pieces_close_itemize: "tracks_pieces e \<Longrightarrow> tracks_pieces (close_itemize e)"
  by (simp add: tracks_pieces_def close_itemize_def append_line_def open_lists_def
        str_split_list_command begin_not_end [symmetric])

lemma tracks_pieces_open_itemize:
  "tracks_pieces e \<Longrightarrow> \<not> in_itemize e \<Longrightarrow>
   tracks_pieces ((append_line begin_itemize e)\<lparr>in_itemize := True\<rparr>)"
  by (simp add: tracks_pieces_def append_line_def open_lists_def str_split_list_command)

lemma tracks_pieces_open_subitemize:
  "tracks_pieces e \<Longrightarrow> \<not> in_subitemize e \<Longrightarrow>
   tracks_pieces ((append_line begin_itemize e)\<lparr>in_subitemize := True\<rparr>)"
  by (simp add: tracks_pieces_def append_line_def open_lists_def str_split_list_command)

lemma command_no_list_command:
  "no_list_command (backslash # u ''title{'' @ escape_latex content @ u ''}'')"
  "no_list_command (backslash # u ''section{'' @ escape_latex content @ u ''}'')"
  "no_list_command (backslash # u ''subsection{'' @ escape_latex content @ u ''}'')"
  "no_list_command (backslash # u ''item '' @ escape_latex content)"
proof -
  note esc = escape_latex_no_list_command [of content]
  note brace = no_list_command_append_brace [OF esc]
  show "no_list_command (backslash # u ''title{'' @ escape_latex content @ u ''}'')"
    using no_list_command_append [OF prefix_no_list_command(2) brace prefix_no_list_command(3)]
    by simp
  show "no_list_command (backslash # u ''section{'' @ escape_latex content @ u ''}'')"
    using no_list_command_append [OF prefix_no_list_command(4) brace prefix_no_list_command(5)]
    by simp
  show "no_list_command (backslash # u ''subsection{'' @ escape_latex content @ u ''}'')"
    using no_list_command_append [OF prefix_no_list_command(6) brace prefix_no_list_command(7)]
    by simp
  show "no_list_command (backslash # u ''item '' @ escape_latex content)"
    using no_list_command_append [OF prefix_no_list_command(8) esc prefix_no_list_command(9)]
    by simp
qed

lemma tracks_pieces_emit_block:
  assumes "tracks_pieces e" shows "tracks_pieces (emit_block e b)"
proof -
  obtain content_type content where b: "b = (content_type, content)" by (cases b)
  note closed = tracks_pieces_close_itemize [OF tracks_pieces_close_subitemize [OF assms]]
  note inert = no_list_command_Nil prefix_no_list_command(1) command_no_list_command
    escape_latex_no_list_command
  have b_title: "tracks_pieces (append_line [] (append_line (backslash # u ''maketitle'')
          (append_line (backslash # u ''title{'' @ escape_latex content @ u ''}'') e)))"
    by (intro tracks_pieces_append_line assms inert)
  have b_section: "tracks_pieces (append_line []
          (append_line (backslash # u ''section{'' @ escape_latex content @ u ''}'')
          (close_itemize (close_subitemize e))))"
    by (intro tracks_pieces_append_line closed inert)
  have b_subsection: "tracks_pieces (append_line []
          (append_line (backslash # u ''subsection{'' @ escape_latex content @ u ''}'')
          (close_itemize (close_subitemize e))))"
    by (intro tracks_pieces_append_line closed inert)
  have item: "tracks_pieces (append_line (backslash # u ''item '' @ escape_latex content) e')"
    if "tracks_pieces e'" for e'
    by (intro tracks_pieces_append_line that inert)
  have b_bullet1: "tracks_pieces (let e1 = close_subitemize e;
             e2 = (if \<not> in_itemize e1 then (append_line begin_itemize e1)\<lparr>in_itemize := True\<rparr> else e1)
         in append_line (backslash # u ''item '' @ escape_latex content) e2)"
    unfolding Let_def
    by (rule item) (simp add: tracks_pieces_open_itemize tracks_pieces_close_subitemize assms)
  have b_bullet2: "tracks_pieces (let e1 = (if \<not> in_subitemize e
             then (append_line begin_itemize e)\<lparr>in_subitemize := True\<rparr> else e)
         in append_line (backslash # u ''item '' @ escape_latex content) e1)"
    unfolding Let_def
    by (rule item) (simp add: tracks_pieces_open_subitemize assms)
  have b_paragraph: "tracks_pieces (append_line [] (append_line (escape_latex content)
          (close_itemize (close_subitemize e))))"
    by (intro tracks_pieces_append_line closed inert)
  show ?thesis
    unfolding b emit_block_def prod.case Let_def [of "escape_latex content"]
    using b_title b_section b_subsection b_bullet1 b_bullet2 b_paragraph assms by simp
qed

lemma tracks_pieces_foldl: "tracks_pieces e \<Longrightarrow> tracks_pieces (foldl emit_block e bs)"
  by (induction bs arbitrary: e) (simp_all add: tracks_pieces_emit_block)

lemma header_pieces:
  "list_all (\<lambda>p. p \<noteq> begin_itemize \<and> p \<noteq> end_itemize) (concat (map (str_split newline) header))"
  by code_simp

lemma tracks_pieces_header:
  "tracks_pieces \<lparr>latex_content = header, in_itemize = False, in_subitemize = False\<rparr>"
proof -
  have inert: "p \<noteq> begin_itemize \<and> p \<noteq> end_itemize"
    if "p \<in> set (concat (map (str_split newline) header))" for p
    using header_pieces that unfolding list_all_iff by blast
  have "balanced 0 (concat (map (str_split newline) header) @ ls) = balanced 0 ls" for ls
    by (rule balanced_inert) (rule inert)
  then show ?thesis
    unfolding tracks_pieces_def open_lists_def by simp
qed

lemma returned_string_balanced:
  "balanced 0 (str_split newline (convert_to_latex structured_content))"
proof -
  let ?e = "foldl emit_block \<lparr>latex_content = header, in_itemize = False, in_subitemize = False\<rparr>
      structured_content"
  let ?closing = "(if in_subitemize ?e then [end_itemize] else [])
      @ (if in_itemize ?e then [end_itemize] else [])"
  have t: "tracks_pieces ?e" by (rule tracks_pieces_foldl [OF tracks_pieces_header])
  have closing: "concat (map (str_split newline) (?closing @ [[], backslash # u ''end{document}'']))
      = ?closing @ [[], backslash # u ''end{document}'']"
    by (simp add: str_split_list_command del: str_split.simps)
  have "str_split newline (convert_to_latex structured_content)
      = concat (map (str_split newline) (convert_to_latex_lines structured_content))"
    unfolding convert_to_latex_def
    by (rule str_split_join) (simp add: convert_to_latex_lines_eq)
  also have "\<dots> = concat (map (str_split newline) (latex_content ?e))
      @ concat (map (str_split newline) (?closing @ [[], backslash # u ''end{document}'']))"
    unfolding convert_to_latex_lines_eq by (simp only: map_append concat_append append_assoc)
  also have "\<dots> = concat (map (str_split newline) (latex_content ?e))
      @ ?closing @ [[], backslash # u ''end{document}'']"
    unfolding closing by simp
  finally show ?thesis
    using t closing_balanced(2) [of "in_itemize ?e" "in_subitemize ?e"]
    unfolding tracks_pieces_def open_lists_def by simp
qed

text \<open>
  C2. For every list of blocks, also with types that are none of the six, with texts
  that contain newlines and in any order, the document never ends with a list open:
  reading the lines of the string returned, every \<open>\end{itemize}\<close> finds a list
  open and none is open at the end. The same holds of the emitted lines, which are the
  lines of a body in which every list opened is closed again, followed by the two lines
  of the document closing; the string returned is these lines joined by newlines.
\<close>

theorem emitted_lists_closed:
  "balanced 0 (str_split newline (convert_to_latex structured_content))
   \<and> balanced 0 (convert_to_latex_lines structured_content)
   \<and> (\<exists>body. convert_to_latex_lines structured_content = body @ [[], backslash # u ''end{document}'']
        \<and> balanced 0 body)
   \<and> convert_to_latex structured_content = str_join [newline] (convert_to_latex_lines structured_content)"
proof -
  let ?e = "foldl emit_block \<lparr>latex_content = header, in_itemize = False, in_subitemize = False\<rparr>
      structured_content"
  let ?closing = "(if in_subitemize ?e then [end_itemize] else [])
      @ (if in_itemize ?e then [end_itemize] else [])"
  have t: "tracks ?e" by (rule tracks_foldl [OF tracks_header])
  have lines: "convert_to_latex_lines structured_content
      = (latex_content ?e @ ?closing) @ [[], backslash # u ''end{document}'']"
    by (simp add: convert_to_latex_lines_eq)
  have "balanced 0 (latex_content ?e @ ?closing @ [[], backslash # u ''end{document}''])"
    using t closing_balanced(2) [of "in_itemize ?e" "in_subitemize ?e"]
    unfolding tracks_def open_lists_def by simp
  then have all: "balanced 0 (convert_to_latex_lines structured_content)"
    by (simp add: lines)
  have body: "balanced 0 (latex_content ?e @ ?closing)"
    using t closing_balanced(1) [of "in_itemize ?e" "in_subitemize ?e"]
    unfolding tracks_def open_lists_def by simp
  show ?thesis
    using returned_string_balanced all lines body unfolding convert_to_latex_def by blast
qed

section \<open>The loop of passes\<close>

lemma pass_loop_done:
  "max_passes < pass_num \<Longrightarrow>
   pass_loop E self temp_tex temp_path log_file pass_num max_passes log_content w = (Inr log_content, w)"
  by (simp add: pass_loop.simps)

lemma pass_loop_raise:
  "\<not> max_passes < pass_num \<Longrightarrow>
   run_latex_command E self temp_tex temp_path pass_num w = (Inl e, w1) \<Longrightarrow>
   pass_loop E self temp_tex temp_path log_file pass_num max_passes log_content w = (Inl e, w1)"
  by (simp add: pass_loop.simps)

lemma pass_loop_nonzero:
  "\<not> max_passes < pass_num \<Longrightarrow>
   run_latex_command E self temp_tex temp_path pass_num w = (Inr result, w1) \<Longrightarrow>
   returncode result \<noteq> 0 \<Longrightarrow>
   pass_loop E self temp_tex temp_path log_file pass_num max_passes log_content w =
     (Inl (Exception (error_msg (fst (parse_latex_errors (read_log (w_fs w1) log_file)))
        (stderr result) (read_log (w_fs w1) log_file))), w1)"
  by (simp add: pass_loop.simps Let_def)

lemma pass_loop_continue:
  "run_latex_command E self temp_tex temp_path pass_num w = (Inr result, w1) \<Longrightarrow>
   returncode result = 0 \<Longrightarrow> pass_num < max_passes \<Longrightarrow>
   needs_multiple_passes (read_log (w_fs w1) log_file) \<Longrightarrow>
   pass_loop E self temp_tex temp_path log_file pass_num max_passes log_content w =
     pass_loop E self temp_tex temp_path log_file (pass_num + 1) max_passes
       (Some (read_log (w_fs w1) log_file)) w1"
  by (subst pass_loop.simps) (simp add: Let_def)

lemma pass_loop_stop:
  "\<not> max_passes < pass_num \<Longrightarrow>
   run_latex_command E self temp_tex temp_path pass_num w = (Inr result, w1) \<Longrightarrow>
   returncode result = 0 \<Longrightarrow>
   \<not> (pass_num < max_passes \<and> needs_multiple_passes (read_log (w_fs w1) log_file)) \<Longrightarrow>
   pass_loop E self temp_tex temp_path log_file pass_num max_passes log_content w =
     (Inr (Some (read_log (w_fs w1) log_file)), w1)"
  by (subst pass_loop.simps) (auto simp: Let_def)

lemma run_latex_command_error:
  "run_latex_command E self tex_file output_dir pass_number w = (Inl e, w1) \<Longrightarrow> \<exists>msg. e = Exception msg"
  by (auto simp: run_latex_command_def Let_def split: prod.splits run_result.splits)

lemma run_latex_command_runs:
  "run_latex_command E self tex_file output_dir pass_number w = (r, w1) \<Longrightarrow> w_runs w1 = Suc (w_runs w)"
  by (auto simp: run_latex_command_def Let_def split: prod.splits run_result.splits)

lemma pass_loop_error:
  "pass_loop E self temp_tex temp_path log_file pass_num max_passes log_content w = (Inl e, w') \<Longrightarrow>
   \<exists>msg. e = Exception msg"
proof (induction E self temp_tex temp_path log_file pass_num max_passes log_content w
    rule: pass_loop.induct)
  case (1 E self temp_tex temp_path log_file pass_num max_passes log_content w)
  show ?case
  proof (cases "max_passes < pass_num")
    case True
    with "1.prems" show ?thesis by (simp add: pass_loop_done)
  next
    case False
    obtain r w1 where run: "run_latex_command E self temp_tex temp_path pass_num w = (r, w1)"
      by (cases "run_latex_command E self temp_tex temp_path pass_num w")
    show ?thesis
    proof (cases r)
      case (Inl e')
      with run False "1.prems" have "e = e'" by (simp add: pass_loop_raise)
      with run Inl show ?thesis using run_latex_command_error by blast
    next
      case (Inr result)
      note run' = run [unfolded Inr]
      show ?thesis
      proof (cases "returncode result \<noteq> 0")
        case True
        with "1.prems" show ?thesis by (auto simp: pass_loop_nonzero [OF False run'])
      next
        case rc: False
        show ?thesis
        proof (cases "pass_num < max_passes \<and> needs_multiple_passes (read_log (w_fs w1) log_file)")
          case True
          then have "pass_loop E self temp_tex temp_path log_file (pass_num + 1) max_passes
                (Some (read_log (w_fs w1) log_file)) w1 = (Inl e, w')"
            using "1.prems" rc by (simp add: pass_loop_continue [OF run'])
          with "1.IH" [OF False run' [symmetric] refl refl _ True] rc show ?thesis by simp
        next
          case False
          with "1.prems" rc show ?thesis
            by (simp add: pass_loop_stop [OF \<open>\<not> max_passes < pass_num\<close> run'])
        qed
      qed
    qed
  qed
qed

lemma with_body_error:
  "with_body E self tex_path output_pdf max_passes temp_path w = (Inl e, w') \<Longrightarrow>
   (\<exists>msg. e = Exception msg) \<or> (\<exists>msg. e = OSError msg) \<or> e = UnboundLocalError"
  unfolding with_body_def Let_def
  by (auto split: prod.splits option.splits sum.splits if_splits dest: pass_loop_error)

lemma convert_to_pdf_past_checks:
  "path_exists (w_fs w) (path_of E tex_file) \<Longrightarrow>
   str_lower (unicode E) (path_suffix (path_of E tex_file)) = u ''.tex'' \<Longrightarrow>
   convert_to_pdf E self tex_file output_pdf max_passes w =
     (case with_body E self (path_of E tex_file)
         (case output_pdf of None \<Rightarrow> with_suffix (path_of E tex_file) (u ''.pdf'')
          | Some p \<Rightarrow> path_of E p)
         max_passes (mkdtemp E (w_fs w)) (w\<lparr>w_fs := (w_fs w)(mkdtemp E (w_fs w) \<mapsto> Dir)\<rparr>) of
        (r, w') \<Rightarrow> (r, w'\<lparr>w_fs := rmtree (mkdtemp E (w_fs w)) (w_fs w')\<rparr>))"
  by (simp add: convert_to_pdf_def Let_def)

lemma str_lower_ascii_suffixes:
  "str_lower U (u ''.TEX'') = u ''.tex''" "str_lower U (u ''.Tex'') = u ''.tex''"
  "str_lower U (u ''.tex'') = u ''.tex''"
  by (simp_all add: str_lower_def u_def upt_conv_Cons)












lemma demo_exists: "path_exists (w_fs demo_world) demo_tex"
  by (simp add: path_exists_def demo_world_def demo_fs_def)

lemma demo_suffix: "path_suffix demo_tex = u ''.TEX''"
  by code_simp

lemma demo_lower: "str_lower (unicode (demo_env run)) (path_suffix demo_tex) = u ''.tex''"
  by (simp add: demo_suffix str_lower_ascii_suffixes)

lemma posix_demo_tex: "posix_path demo_tex_file = demo_tex"
  by code_simp

lemma demo_path: "path_of (demo_env run) demo_tex_file = demo_tex"
  by (simp add: demo_env_def posix_demo_tex)

lemma demo_exists_file: "path_exists (w_fs demo_world) (path_of (demo_env run) demo_tex_file)"
  by (simp add: demo_path demo_exists)

lemma demo_lower_file:
  "str_lower (unicode (demo_env run)) (path_suffix (path_of (demo_env run) demo_tex_file)) = u ''.tex''"
  by (simp add: demo_path demo_lower)



text \<open>
  The exception of the loop leaves the \<open>with\<close> block unchanged, so it is what
  \<open>convert_to_pdf\<close> raises; with the second engine the whole conversion raises after
  one run.
\<close>

lemma with_body_loop_error:
  "copy2 E tex_path (path_join temp_path (path_name tex_path)) (w_fs w) = (None, f1) \<Longrightarrow>
   copy_additional_files E (path_parent tex_path) temp_path f1 = (None, f2) \<Longrightarrow>
   pass_loop E self (path_join temp_path (path_name tex_path)) temp_path
     (path_join temp_path (path_name (with_suffix tex_path (u ''.log'')))) 1 max_passes None
     (w\<lparr>w_fs := f2\<rparr>) = (Inl e, w3) \<Longrightarrow>
   with_body E self tex_path output_pdf max_passes temp_path w = (Inl e, w3)"
  by (simp add: with_body_def Let_def)

lemma failing_end_to_end:
  "fst (convert_to_pdf (demo_env failing_engine) demo_self demo_tex_file None 3 demo_world)
     = Inl (Exception (error_msg [u ''! Undefined control sequence.''] (u ''halted'')
          (u ''! Undefined control sequence.'')))
   \<and> w_runs (snd (convert_to_pdf (demo_env failing_engine) demo_self demo_tex_file None 3 demo_world)) = 1"
  by code_simp

text \<open>
  Take \<open>k\<close> passes in a row, from pass \<open>pass_num\<close> on, that all exit with code 0,
  the world \<open>ws (j+1)\<close> being the one that run \<open>j\<close> leaves. If the log after each but
  the last asks for a rerun, and after the last either no pass remains or the log asks
  for none, then the loop makes exactly these \<open>k\<close> runs and ends without an error, with
  the last log. So after a pass with exit code 0 the loop goes on exactly when a rerun
  indicator is in the log and a pass remains (\<open>pass_loop_continue\<close>), and stops
  otherwise (\<open>pass_loop_stop\<close>), also when the passes are used up.
\<close>

lemma pass_loop_reruns:
  fixes ws :: "nat \<Rightarrow> world" and rs :: "nat \<Rightarrow> completed"
  assumes "0 < k" and "pass_num + int k - 1 \<le> max_passes"
    and "\<And>j. j < k \<Longrightarrow>
           run_latex_command E self temp_tex temp_path (pass_num + int j) (ws j) = (Inr (rs j), ws (Suc j))
           \<and> returncode (rs j) = 0"
    and "\<And>j. Suc j < k \<Longrightarrow> needs_multiple_passes (read_log (w_fs (ws (Suc j))) log_file)"
    and "pass_num + int k - 1 = max_passes
           \<or> \<not> needs_multiple_passes (read_log (w_fs (ws k)) log_file)"
  shows "pass_loop E self temp_tex temp_path log_file pass_num max_passes log_content (ws 0)
           = (Inr (Some (read_log (w_fs (ws k)) log_file)), ws k)
         \<and> w_runs (ws k) = w_runs (ws 0) + k"
  using assms
proof (induction k arbitrary: pass_num ws rs log_content)
  case 0
  then show ?case by simp
next
  case (Suc k)
  have run0: "run_latex_command E self temp_tex temp_path pass_num (ws 0) = (Inr (rs 0), ws 1)"
    and rc0: "returncode (rs 0) = 0"
    using Suc.prems(3) [of 0] by simp_all
  have runs0: "w_runs (ws 1) = Suc (w_runs (ws 0))"
    using run0 by (rule run_latex_command_runs)
  show ?case
  proof (cases "k = 0")
    case True
    have "\<not> max_passes < pass_num" using Suc.prems(2) True by simp
    moreover have "\<not> (pass_num < max_passes \<and> needs_multiple_passes (read_log (w_fs (ws 1)) log_file))"
      using Suc.prems(5) True by auto
    ultimately show ?thesis
      using pass_loop_stop [OF _ run0 rc0] runs0 True by simp
  next
    case False
    then have k: "0 < k" by simp
    have lt: "pass_num < max_passes" using Suc.prems(2) k by simp
    have needs: "needs_multiple_passes (read_log (w_fs (ws 1)) log_file)"
      using Suc.prems(4) [of 0] k by simp
    have step: "pass_loop E self temp_tex temp_path log_file pass_num max_passes log_content (ws 0)
        = pass_loop E self temp_tex temp_path log_file (pass_num + 1) max_passes
            (Some (read_log (w_fs (ws 1)) log_file)) (ws 1)"
      by (rule pass_loop_continue [OF run0 rc0 lt needs])
    have "pass_loop E self temp_tex temp_path log_file (pass_num + 1) max_passes
            (Some (read_log (w_fs (ws 1)) log_file)) ((ws \<circ> Suc) 0)
          = (Inr (Some (read_log (w_fs ((ws \<circ> Suc) k)) log_file)), (ws \<circ> Suc) k)
        \<and> w_runs ((ws \<circ> Suc) k) = w_runs ((ws \<circ> Suc) 0) + k"
    proof (rule Suc.IH [where rs = "rs \<circ> Suc"])
      show "0 < k" by (rule k)
      show "pass_num + 1 + int k - 1 \<le> max_passes" using Suc.prems(2) by simp
      show "run_latex_command E self temp_tex temp_path (pass_num + 1 + int j) ((ws \<circ> Suc) j)
              = (Inr ((rs \<circ> Suc) j), (ws \<circ> Suc) (Suc j)) \<and> returncode ((rs \<circ> Suc) j) = 0"
        if "j < k" for j
        using Suc.prems(3) [of "Suc j"] that by (simp add: add.commute add.left_commute)
      show "needs_multiple_passes (read_log (w_fs ((ws \<circ> Suc) (Suc j))) log_file)"
        if "Suc j < k" for j
        using Suc.prems(4) [of "Suc j"] that by simp
      show "pass_num + 1 + int k - 1 = max_passes
           \<or> \<not> needs_multiple_passes (read_log (w_fs ((ws \<circ> Suc) k)) log_file)"
        using Suc.prems(5) by simp
    qed
    then show ?thesis using step runs0 by simp
  qed
qed

section \<open>The conversion as a whole\<close>

text \<open>
  C10. For an input file that exists, the conversion raises the error of a wrong
  extension exactly when the lowered suffix of the path is not \<open>.tex\<close>; a file with
  the suffix \<open>.TEX\<close> or \<open>.Tex\<close> passes the test.
\<close>

theorem extension_check_case_insensitive:
  assumes "path_exists (w_fs w) (path_of E tex_file)"
  shows "((fst (convert_to_pdf E self tex_file output_pdf max_passes w)
            = Inl (ValueError (u ''Input file must have .tex extension'')))
         = (str_lower (unicode E) (path_suffix (path_of E tex_file)) \<noteq> u ''.tex''))
     \<and> (path_suffix (path_of E tex_file) = u ''.TEX'' \<or> path_suffix (path_of E tex_file) = u ''.Tex''
          \<longrightarrow>
         fst (convert_to_pdf E self tex_file output_pdf max_passes w)
            \<noteq> Inl (ValueError (u ''Input file must have .tex extension'')))"
proof -
  let ?tex_path = "path_of E tex_file"
  let ?out = "case output_pdf of None \<Rightarrow> with_suffix ?tex_path (u ''.pdf'') | Some p \<Rightarrow> path_of E p"
  have eq: "(fst (convert_to_pdf E self tex_file output_pdf max_passes w)
            = Inl (ValueError (u ''Input file must have .tex extension'')))
         = (str_lower (unicode E) (path_suffix ?tex_path) \<noteq> u ''.tex'')"
  proof (cases "str_lower (unicode E) (path_suffix ?tex_path) = u ''.tex''")
    case True
    obtain r w' where wb: "with_body E self ?tex_path ?out
         max_passes (mkdtemp E (w_fs w)) (w\<lparr>w_fs := (w_fs w)(mkdtemp E (w_fs w) \<mapsto> Dir)\<rparr>) = (r, w')"
      by (cases "with_body E self ?tex_path ?out
         max_passes (mkdtemp E (w_fs w)) (w\<lparr>w_fs := (w_fs w)(mkdtemp E (w_fs w) \<mapsto> Dir)\<rparr>)")
    have "r \<noteq> Inl (ValueError (u ''Input file must have .tex extension''))"
      using with_body_error [of E self ?tex_path _ max_passes _ _ _ w'] wb by auto
    then show ?thesis
      using True by (simp add: convert_to_pdf_past_checks [OF assms True] wb)
  next
    case False
    then show ?thesis using assms by (simp add: convert_to_pdf_def Let_def)
  qed
  then show ?thesis using str_lower_ascii_suffixes by auto
qed

theorem extension_check_case_insensitive_witness:
  "path_exists (w_fs demo_world) (path_of (demo_env rerun_engine) demo_tex_file)
   \<and> path_suffix (path_of (demo_env rerun_engine) demo_tex_file) = u ''.TEX''
   \<and> fst (convert_to_pdf (demo_env rerun_engine) demo_self demo_tex_file None 3 demo_world)
       \<noteq> Inl (ValueError (u ''Input file must have .tex extension''))"
  using extension_check_case_insensitive [OF demo_exists_file, of rerun_engine demo_self None 3]
    demo_exists_file [of rerun_engine] demo_suffix
  by (simp add: demo_path str_lower_ascii_suffixes)

text \<open>
  C8. Once the two tests at the start have passed, the temporary directory is made, and
  whatever the body of the \<open>with\<close> block returns or raises (success, a failed
  compilation, a timeout, no output, an error of a copy), after the call neither the
  directory nor any path below it exists. The \<open>cleanup\<close> flag of the converter is
  never read, so this does not depend on it.
\<close>

theorem scratch_directory_removed:
  assumes "path_exists (w_fs w) (path_of E tex_file)"
    and "str_lower (unicode E) (path_suffix (path_of E tex_file)) = u ''.tex''"
  shows "\<not> path_exists (w_fs (snd (convert_to_pdf E self tex_file output_pdf max_passes w)))
           (foldl path_join (mkdtemp E (w_fs w)) names)"
proof -
  have "anchor (foldl path_join d names) = anchor d
      \<and> parts (foldl path_join d names) = parts d @ names" for d
    by (induction names arbitrary: d) (simp_all add: path_join_def)
  then show ?thesis
    by (simp add: convert_to_pdf_past_checks [OF assms] rmtree_def path_exists_def
          split: prod.splits)
qed

theorem scratch_directory_removed_witness:
  "path_exists (w_fs demo_world) (path_of (demo_env failing_engine) demo_tex_file)
   \<and> str_lower (unicode (demo_env failing_engine))
       (path_suffix (path_of (demo_env failing_engine) demo_tex_file)) = u ''.tex''
   \<and> \<not> path_exists (w_fs (snd (convert_to_pdf (demo_env failing_engine) demo_self demo_tex_file None 3
          demo_world))) demo_tmp
   \<and> \<not> path_exists (w_fs (snd (convert_to_pdf (demo_env failing_engine) demo_self demo_tex_file None 3
          demo_world))) demo_log"
proof -
  have tmp: "mkdtemp (demo_env failing_engine) (w_fs demo_world) = demo_tmp"
    by (simp add: demo_env_def)
  have log: "foldl path_join demo_tmp [u ''doc.log''] = demo_log"
    by (simp add: path_join_def demo_tmp_def demo_log_def)
  show ?thesis
    using scratch_directory_removed [OF demo_exists_file demo_lower_file,
        of failing_engine demo_self None 3 "[]"]
      scratch_directory_removed [OF demo_exists_file demo_lower_file,
        of failing_engine demo_self None 3 "[u ''doc.log'']"]
      demo_exists_file [of failing_engine] demo_lower_file [of failing_engine]
    unfolding tmp log by simp
qed

text \<open>
  C4. The claim: when pass 1 exits with code 0 and a rerun indicator in its log, and
  pass 2 exits with code 0 and none, the compiler performs exactly 2 passes and returns
  success. The loop does stop after these 2 passes without an error, but the conversion
  then looks for the PDF in the temporary directory and raises when there is none. The
  third engine exits with code 0 twice, asks for a rerun in its first log only and
  writes no PDF: the conversion makes 2 runs and raises.
\<close>

theorem rerun_without_pdf_raises:
  "run_latex_command (demo_env nopdf_engine) demo_self demo_temp_tex demo_tmp 1
       (demo_worlds nopdf_engine 0) = (Inr ok, demo_worlds nopdf_engine 1)
   \<and> run_latex_command (demo_env nopdf_engine) demo_self demo_temp_tex demo_tmp 2
       (demo_worlds nopdf_engine 1) = (Inr ok, demo_worlds nopdf_engine 2)
   \<and> returncode ok = 0
   \<and> sublist (u ''Rerun to get cross-references right'')
       (read_log (w_fs (demo_worlds nopdf_engine 1)) demo_log)
   \<and> \<not> needs_multiple_passes (read_log (w_fs (demo_worlds nopdf_engine 2)) demo_log)
   \<and> fst (convert_to_pdf (demo_env nopdf_engine) demo_self demo_tex_file None 3 demo_world)
       = Inl (Exception (u ''PDF file was not created, but no obvious errors were found''))
   \<and> w_runs (snd (convert_to_pdf (demo_env nopdf_engine) demo_self demo_tex_file None 3 demo_world)) = 2"
proof -
  have run: "run_latex_command (demo_env nopdf_engine) demo_self demo_temp_tex demo_tmp p w
     = (Inr ok, snd (run_latex_command (demo_env nopdf_engine) demo_self demo_temp_tex demo_tmp p w))"
    for p w
    by (simp add: run_latex_command_def demo_env_def nopdf_engine_def)
  have one: "demo_worlds nopdf_engine 1
      = snd (run_latex_command (demo_env nopdf_engine) demo_self demo_temp_tex demo_tmp 1
          (demo_worlds nopdf_engine 0))"
    by simp
  have two: "demo_worlds nopdf_engine 2
      = snd (run_latex_command (demo_env nopdf_engine) demo_self demo_temp_tex demo_tmp 2
          (demo_worlds nopdf_engine 1))"
    by (simp add: numeral_2_eq_2)
  have run1: "run_latex_command (demo_env nopdf_engine) demo_self demo_temp_tex demo_tmp 1
       (demo_worlds nopdf_engine 0) = (Inr ok, demo_worlds nopdf_engine 1)"
    unfolding one by (rule run)
  have run2: "run_latex_command (demo_env nopdf_engine) demo_self demo_temp_tex demo_tmp 2
       (demo_worlds nopdf_engine 1) = (Inr ok, demo_worlds nopdf_engine 2)"
    unfolding two by (rule run)
  have rc: "returncode ok = 0" by (simp add: ok_def)
  have log1: "sublist (u ''Rerun to get cross-references right'')
       (read_log (w_fs (demo_worlds nopdf_engine 1)) demo_log)"
    by code_simp
  have log2: "\<not> needs_multiple_passes (read_log (w_fs (demo_worlds nopdf_engine 2)) demo_log)"
    by code_simp
  have result: "fst (convert_to_pdf (demo_env nopdf_engine) demo_self demo_tex_file None 3 demo_world)
       = Inl (Exception (u ''PDF file was not created, but no obvious errors were found''))"
    by code_simp
  have runs: "w_runs (snd (convert_to_pdf (demo_env nopdf_engine) demo_self demo_tex_file None 3
       demo_world)) = 2"
    by code_simp
  show ?thesis
    using run1 run2 rc log1 log2 result runs by blast
qed

text \<open>
  C4, amended. Let the conversion pass its two tests and set up the temporary directory,
  and let \<open>k\<close> passes in a row from pass 1 on exit with code 0, with a rerun indicator in
  the log after each but the last, and after the last either no pass left or none in
  the log (with \<open>k = 2\<close>: an indicator in the first log, none in the second). Then the
  conversion makes exactly these \<open>k\<close> runs, and the loop ends without an error. The
  conversion returns the output path when the PDF is in the temporary directory after
  the loop and its copy to the destination succeeds; it raises
  \<open>PDF file was not created\<close> when the PDF is not there, and the error of the copy
  when the copy fails. In each case the temporary directory is removed.
\<close>

theorem rerun_conversion_passes:
  fixes ws :: "nat \<Rightarrow> world" and rs :: "nat \<Rightarrow> completed"
  assumes tex_path: "tex_path = path_of E tex_file"
    and exists: "path_exists (w_fs w) tex_path"
    and suffix: "str_lower (unicode E) (path_suffix tex_path) = u ''.tex''"
    and temp_path: "temp_path = mkdtemp E (w_fs w)"
    and temp_tex: "temp_tex = path_join temp_path (path_name tex_path)"
    and log_file: "log_file = path_join temp_path (path_name (with_suffix tex_path (u ''.log'')))"
    and pdf_file: "pdf_file = path_join temp_path (path_name (with_suffix tex_path (u ''.pdf'')))"
    and out: "out = (case output_pdf of None \<Rightarrow> with_suffix tex_path (u ''.pdf'')
                     | Some p \<Rightarrow> path_of E p)"
    and copy_tex: "copy2 E tex_path temp_tex ((w_fs w)(temp_path \<mapsto> Dir)) = (None, f1)"
    and copy_more: "copy_additional_files E (path_parent tex_path) temp_path f1 = (None, f2)"
    and start: "ws 0 = w\<lparr>w_fs := f2\<rparr>"
    and k: "0 < k" "int k \<le> max_passes"
    and runs: "\<And>j. j < k \<Longrightarrow>
           run_latex_command E self temp_tex temp_path (1 + int j) (ws j) = (Inr (rs j), ws (Suc j))
           \<and> returncode (rs j) = 0"
    and rerun: "\<And>j. Suc j < k \<Longrightarrow> needs_multiple_passes (read_log (w_fs (ws (Suc j))) log_file)"
    and stop: "int k = max_passes \<or> \<not> needs_multiple_passes (read_log (w_fs (ws k)) log_file)"
  shows "convert_to_pdf E self tex_file output_pdf max_passes w =
      (if \<not> path_exists (w_fs (ws k)) pdf_file then
         (Inl (Exception (u ''PDF file was not created, but no obvious errors were found'')),
          (ws k)\<lparr>w_fs := rmtree temp_path (w_fs (ws k))\<rparr>)
       else
         case copy2 E pdf_file out (w_fs (ws k)) of
           (Some e, f4) \<Rightarrow> (Inl (OSError e), (ws k)\<lparr>w_fs := rmtree temp_path f4\<rparr>)
         | (None, f4) \<Rightarrow> (Inr out, (ws k)\<lparr>w_fs := rmtree temp_path f4\<rparr>))
    \<and> w_runs (snd (convert_to_pdf E self tex_file output_pdf max_passes w)) = w_runs w + k"
proof -
  have loop: "pass_loop E self temp_tex temp_path log_file 1 max_passes None (ws 0)
       = (Inr (Some (read_log (w_fs (ws k)) log_file)), ws k)
     \<and> w_runs (ws k) = w_runs (ws 0) + k"
  proof (rule pass_loop_reruns [where rs = rs])
    show "0 < k" by (rule k)
    show "1 + int k - 1 \<le> max_passes" using k(2) by simp
    show "1 + int k - 1 = max_passes \<or> \<not> needs_multiple_passes (read_log (w_fs (ws k)) log_file)"
      using stop by simp
  qed (use runs rerun in blast)+
  then have loop': "pass_loop E self temp_tex temp_path log_file 1 max_passes None (w\<lparr>w_fs := f2\<rparr>)
       = (Inr (Some (read_log (w_fs (ws k)) log_file)), ws k)"
    and count: "w_runs (ws k) = w_runs w + k"
    by (simp_all add: start)
  have body: "with_body E self tex_path out max_passes temp_path
        (w\<lparr>w_fs := (w_fs w)(temp_path \<mapsto> Dir)\<rparr>) =
      (if \<not> path_exists (w_fs (ws k)) pdf_file then
         (Inl (Exception (u ''PDF file was not created, but no obvious errors were found'')), ws k)
       else
         case copy2 E pdf_file out (w_fs (ws k)) of
           (Some e, f4) \<Rightarrow> (Inl (OSError e), (ws k)\<lparr>w_fs := f4\<rparr>)
         | (None, f4) \<Rightarrow> (Inr out, (ws k)\<lparr>w_fs := f4\<rparr>))"
    unfolding with_body_def Let_def
    by (simp add: temp_tex [symmetric] log_file [symmetric] pdf_file [symmetric]
          copy_tex copy_more loop' split: prod.splits option.splits)
  have conv: "convert_to_pdf E self tex_file output_pdf max_passes w =
      (case with_body E self tex_path out max_passes temp_path
          (w\<lparr>w_fs := (w_fs w)(temp_path \<mapsto> Dir)\<rparr>) of
        (r, w') \<Rightarrow> (r, w'\<lparr>w_fs := rmtree temp_path (w_fs w')\<rparr>))"
    using convert_to_pdf_past_checks [of w E tex_file self output_pdf max_passes]
      exists suffix
    unfolding tex_path temp_path out by simp
  show ?thesis
    unfolding conv body using count
    by (simp split: prod.splits option.splits)
qed

lemma rerun_run:
  "run_latex_command (demo_env rerun_engine) demo_self demo_temp_tex demo_tmp p w
     = (Inr ok, snd (run_latex_command (demo_env rerun_engine) demo_self demo_temp_tex demo_tmp p w))"
  by (simp add: run_latex_command_def demo_env_def rerun_engine_def)

lemma rerun_log1: "needs_multiple_passes (read_log (w_fs (demo_worlds rerun_engine 1)) demo_log)"
  by code_simp

lemma rerun_log2: "\<not> needs_multiple_passes (read_log (w_fs (demo_worlds rerun_engine 2)) demo_log)"
  by code_simp

lemma rerun_pdf: "path_exists (w_fs (demo_worlds rerun_engine 2)) demo_pdf"
  by code_simp

lemma rerun_copy:
  "fst (copy2 (demo_env rerun_engine) demo_pdf demo_out (w_fs (demo_worlds rerun_engine 2))) = None"
  by code_simp

lemma demo_paths:
  "demo_temp_tex = path_join demo_tmp (path_name demo_tex)"
  "demo_log = path_join demo_tmp (path_name (with_suffix demo_tex (u ''.log'')))"
  "demo_pdf = path_join demo_tmp (path_name (with_suffix demo_tex (u ''.pdf'')))"
  "demo_out = with_suffix demo_tex (u ''.pdf'')"
  by code_simp+

lemma demo_setup:
  "copy2 (demo_env run) demo_tex demo_temp_tex ((w_fs demo_world)(demo_tmp \<mapsto> Dir))
     = (None, w_fs setup_world)"
  "copy_additional_files (demo_env run) (path_parent demo_tex) demo_tmp (w_fs setup_world)
     = (None, w_fs setup_world)"
  "demo_worlds run 0 = demo_world\<lparr>w_fs := w_fs setup_world\<rparr>"
  by (simp_all add: demo_env_def demo_copy2_def copy_additional_files_def setup_world_def
        demo_world_def demo_fs_def demo_tex_def demo_tmp_def demo_temp_tex_def path_parent_def
        u_def)

theorem rerun_conversion_passes_witness:
  "fst (convert_to_pdf (demo_env rerun_engine) demo_self demo_tex_file None 3 demo_world) = Inr demo_out
   \<and> w_runs (snd (convert_to_pdf (demo_env rerun_engine) demo_self demo_tex_file None 3 demo_world))
       = w_runs demo_world + 2
   \<and> needs_multiple_passes (read_log (w_fs (demo_worlds rerun_engine 1)) demo_log)
   \<and> \<not> needs_multiple_passes (read_log (w_fs (demo_worlds rerun_engine 2)) demo_log)
   \<and> path_exists (w_fs (demo_worlds rerun_engine 2)) demo_pdf"
proof -
  have runs: "run_latex_command (demo_env rerun_engine) demo_self demo_temp_tex demo_tmp (1 + int j)
       (demo_worlds rerun_engine j) = (Inr ((\<lambda>j. ok) j), demo_worlds rerun_engine (Suc j))
     \<and> returncode ((\<lambda>j. ok) j) = 0"
    if "j < 2" for j
    using rerun_run [of "1 + int j" "demo_worlds rerun_engine j"] by (simp add: ok_def)
  have rerun: "needs_multiple_passes (read_log (w_fs (demo_worlds rerun_engine (Suc j))) demo_log)"
    if "Suc j < 2" for j
    using that rerun_log1 by (cases j) simp_all
  have stop: "int 2 = 3 \<or> \<not> needs_multiple_passes (read_log (w_fs (demo_worlds rerun_engine 2)) demo_log)"
    by (simp add: rerun_log2)
  obtain f4 where copy: "copy2 (demo_env rerun_engine) demo_pdf demo_out
      (w_fs (demo_worlds rerun_engine 2)) = (None, f4)"
    using rerun_copy
    by (cases "copy2 (demo_env rerun_engine) demo_pdf demo_out (w_fs (demo_worlds rerun_engine 2))") simp
  have out: "demo_out = (case None of None \<Rightarrow> with_suffix demo_tex (u ''.pdf'')
                     | Some p \<Rightarrow> path_of (demo_env rerun_engine) p)"
    by (simp add: demo_paths(4))
  have tmp: "demo_tmp = mkdtemp (demo_env rerun_engine) (w_fs demo_world)"
    by (simp add: demo_env_def)
  note conversion = rerun_conversion_passes [OF demo_path [symmetric] demo_exists demo_lower tmp
        demo_paths(1) demo_paths(2) demo_paths(3) out demo_setup(1) demo_setup(2) demo_setup(3)
        _ _ runs rerun stop]
  have result: "convert_to_pdf (demo_env rerun_engine) demo_self demo_tex_file None 3 demo_world =
      (Inr demo_out, (demo_worlds rerun_engine 2)\<lparr>w_fs := rmtree demo_tmp f4\<rparr>)"
    using conversion [THEN conjunct1] rerun_pdf copy by simp
  have count: "w_runs (snd (convert_to_pdf (demo_env rerun_engine) demo_self demo_tex_file None 3
      demo_world)) = w_runs demo_world + 2"
    using conversion [THEN conjunct2] by simp
  show ?thesis
    using result count rerun_log1 rerun_log2 rerun_pdf by simp
qed

end
